theory Spec2Isabelle
  imports Complex_Main
begin

unbundle bit_operations_syntax

section \<open>The Lua tokenizer of lua-tokenize.js\<close>

text \<open>
  The tokenizer is one generator function closing over a scan cursor (\<open>index\<close>,
  \<open>line\<close>, \<open>lineStart\<close>, \<open>tokenStart\<close>), the resolved options and features and
  the keyword set. The model passes the cursor explicitly, returns a thrown lexical error
  as the left summand of a sum, and keeps the optional comment array as a value of its
  own, threaded through the two functions that touch it.

  A JavaScript string is a sequence of 16-bit code units; the model writes a code unit
  as a natural number and a string as a list. Numbers are written as exact rationals,
  with \<open>None\<close> for NaN: the rounding and the infinities of IEEE-754 doubles lie
  outside the model.
\<close>

subsection \<open>Strings and numbers of the host language\<close>

type_synonym jsstring = "nat list"

type_synonym jsnumber = "rat option"

definition str :: "string \<Rightarrow> jsstring" where
  "str s = map of_char s"

text \<open>\<open>s.charCodeAt(i)\<close> is NaN beyond the end of the string; \<open>s.charAt(i)\<close> is
  the empty string there.\<close>

definition charCodeAt :: "jsstring \<Rightarrow> nat \<Rightarrow> nat option" where
  "charCodeAt s i = (if i < length s then Some (s ! i) else None)"

definition charAt :: "jsstring \<Rightarrow> nat \<Rightarrow> jsstring" where
  "charAt s i = (if i < length s then [s ! i] else [])"

text \<open>\<open>s.slice(a, b)\<close> for indices that are not negative, as they are at every call.\<close>

definition slice :: "jsstring \<Rightarrow> nat \<Rightarrow> nat \<Rightarrow> jsstring" where
  "slice s a b = take (b - a) (drop a s)"

text \<open>\<open>chars.indexOf(c || " ") >= 0\<close> for \<open>c\<close> the result of \<open>charAt\<close>: the empty
  string is replaced by a space before the search.\<close>

definition is_one_of :: "jsstring \<Rightarrow> jsstring \<Rightarrow> bool" where
  "is_one_of chars c = (case c of [] \<Rightarrow> 32 \<in> set chars | x # _ \<Rightarrow> x \<in> set chars)"

text \<open>\<open>parseInt(s, radix)\<close> on a string that starts with a digit of the radix reads
  the longest run of such digits; on any other string met here (the empty one) it is NaN.
  The strings the tokenizer passes hold digits only, so the white space, sign and
  \<open>0x\<close> prefix that \<open>parseInt\<close> would skip never occur.\<close>

definition digit_of :: "nat \<Rightarrow> nat \<Rightarrow> nat option" where
  "digit_of radix c =
     (let d = (if 48 \<le> c \<and> c \<le> 57 then Some (c - 48)
               else if 97 \<le> c \<and> c \<le> 122 then Some (c - 87)
               else if 65 \<le> c \<and> c \<le> 90 then Some (c - 55)
               else None)
      in case d of None \<Rightarrow> None | Some v \<Rightarrow> if v < radix then Some v else None)"

fun parse_digits :: "nat \<Rightarrow> nat \<Rightarrow> jsstring \<Rightarrow> nat" where
  "parse_digits radix acc [] = acc"
| "parse_digits radix acc (c # cs) =
     (case digit_of radix c of
        None \<Rightarrow> acc
      | Some d \<Rightarrow> parse_digits radix (acc * radix + d) cs)"

definition parseInt :: "jsstring \<Rightarrow> nat \<Rightarrow> nat option" where
  "parseInt s radix =
     (case s of
        [] \<Rightarrow> None
      | c # _ \<Rightarrow> (case digit_of radix c of
                    None \<Rightarrow> None
                  | Some _ \<Rightarrow> Some (parse_digits radix 0 s)))"

definition num_of_nat :: "nat option \<Rightarrow> jsnumber" where
  "num_of_nat n = map_option of_nat n"

definition num_add :: "jsnumber \<Rightarrow> jsnumber \<Rightarrow> jsnumber" where
  "num_add a b = (case (a, b) of (Some x, Some y) \<Rightarrow> Some (x + y) | _ \<Rightarrow> None)"

definition num_mul :: "jsnumber \<Rightarrow> jsnumber \<Rightarrow> jsnumber" where
  "num_mul a b = (case (a, b) of (Some x, Some y) \<Rightarrow> Some (x * y) | _ \<Rightarrow> None)"

definition num_div :: "jsnumber \<Rightarrow> jsnumber \<Rightarrow> jsnumber" where
  "num_div a b = (case (a, b) of (Some x, Some y) \<Rightarrow> Some (x / y) | _ \<Rightarrow> None)"

text \<open>\<open>Math.pow(b, e)\<close> for a positive integer base and an integer exponent.\<close>

definition pow_int :: "nat \<Rightarrow> int \<Rightarrow> rat" where
  "pow_int b e = (if 0 \<le> e then of_nat b ^ nat e else 1 / of_nat b ^ nat (- e))"

definition math_pow :: "nat \<Rightarrow> int option \<Rightarrow> jsnumber" where
  "math_pow b e = map_option (pow_int b) e"

subsection \<open>Tokens, errors, comments, options\<close>

datatype token_type =
  StringLiteral | Keyword | Identifier | NumericLiteral | Punctuator
  | BooleanLiteral | NilLiteral | VarargLiteral

datatype token_value = VString jsstring | VNumber jsnumber | VBool bool | VNull

record token =
  tok_type :: token_type
  tok_value :: token_value
  tok_line :: nat
  tok_lineStart :: nat
  tok_range :: "nat \<times> nat"
  tok_lastLine :: "nat option"
  tok_lastLineStart :: "nat option"

datatype error_kind =
  unexpectedSymbol | unfinishedString | unfinishedLongString | unfinishedLongComment
  | invalidDelimiter | malformedNumber | decimalEscapeTooLarge | hexDigitExpected
  | missingInEscape | tooLargeCodepoint | invalidEscape

text \<open>Modelled from the spec: the error value that \<open>tokenError\<close> of \<open>./errors\<close>
  builds (that module is not among the sources): the error kind, the location record
  handed over (line, lineStart, range) and the optional expected character.\<close>

record lex_error =
  err_kind :: error_kind
  err_line :: nat
  err_lineStart :: nat
  err_range :: "nat \<times> nat"
  err_expected :: "jsstring option"

definition tokenError ::
  "error_kind \<Rightarrow> nat \<Rightarrow> nat \<Rightarrow> nat \<times> nat \<Rightarrow> jsstring option \<Rightarrow> lex_error" where
  "tokenError k l ls r x =
     \<lparr>err_kind = k, err_line = l, err_lineStart = ls, err_range = r, err_expected = x\<rparr>"

record comment =
  com_value :: jsstring
  com_raw :: jsstring
  com_start :: "nat \<times> int"
  com_end :: "nat \<times> int"
  com_range :: "nat \<times> nat"

datatype lua_version = Lua51 | Lua52 | Lua53 | LuaJIT

record tokenizerOptions =
  comments :: "comment list option"
  luaVersion :: lua_version
  ignoreShebang :: bool
  extendedIdentifiers :: bool
  opt_const_feature :: bool
  opt_typeCheck :: bool

definition defaultOptions :: tokenizerOptions where
  "defaultOptions =
     \<lparr>comments = None, luaVersion = Lua51, ignoreShebang = True,
      extendedIdentifiers = False, opt_const_feature = False, opt_typeCheck = False\<rparr>"

record features =
  labels :: bool
  contextualGoto :: bool
  hexEscapes :: bool
  skipWhitespaceEscape :: bool
  strictEscapes :: bool
  unicodeEscapes :: bool
  bitwiseOperators :: bool
  integerDivision :: bool
  const_feature :: bool
  typeCheck :: bool

definition noFeatures :: features where
  "noFeatures =
     \<lparr>labels = False, contextualGoto = False, hexEscapes = False,
      skipWhitespaceEscape = False, strictEscapes = False, unicodeEscapes = False,
      bitwiseOperators = False, integerDivision = False, const_feature = False,
      typeCheck = False\<rparr>"

fun versionFeatures :: "lua_version \<Rightarrow> features" where
  "versionFeatures Lua51 = noFeatures"
| "versionFeatures Lua52 =
     noFeatures\<lparr>labels := True, hexEscapes := True, skipWhitespaceEscape := True,
                strictEscapes := True\<rparr>"
| "versionFeatures Lua53 =
     noFeatures\<lparr>labels := True, hexEscapes := True, skipWhitespaceEscape := True,
                strictEscapes := True, unicodeEscapes := True, bitwiseOperators := True,
                integerDivision := True\<rparr>"
| "versionFeatures LuaJIT =
     noFeatures\<lparr>labels := True, contextualGoto := True, hexEscapes := True,
                skipWhitespaceEscape := True, strictEscapes := True,
                unicodeEscapes := True\<rparr>"

text \<open>\<open>{ ...versionFeatures[options.luaVersion], ...options.features }\<close>: the two
  opt-in features of the options are laid over the features of the version. The
  source's \<open>const_\<close> is written \<open>const_feature\<close>: a name cannot end in an
  underscore here.\<close>

definition resolveFeatures :: "tokenizerOptions \<Rightarrow> features" where
  "resolveFeatures opts =
     (versionFeatures (luaVersion opts))
       \<lparr>const_feature := opt_const_feature opts, typeCheck := opt_typeCheck opts\<rparr>"

definition baseKeywords :: "jsstring list" where
  "baseKeywords =
     map str [''do'', ''if'', ''in'', ''or'', ''and'', ''end'', ''for'', ''not'', ''else'',
              ''then'', ''break'', ''local'', ''until'', ''while'', ''elseif'', ''repeat'',
              ''return'', ''function'']"

definition keywords_of :: "features \<Rightarrow> jsstring list" where
  "keywords_of f =
     baseKeywords
     @ (if labels f \<and> \<not> contextualGoto f then [str ''goto''] else [])
     @ (if typeCheck f then [str ''declare''] else [])
     @ (if const_feature f then [str ''const''] else [])"

definition isKeyword :: "features \<Rightarrow> jsstring \<Rightarrow> bool" where
  "isKeyword f ident = (ident \<in> set (keywords_of f))"

subsection \<open>The scan cursor and the character classes\<close>

record cursor =
  index :: nat
  line :: nat
  lineStart :: nat
  tokenStart :: nat

definition isWhiteSpace :: "nat option \<Rightarrow> bool" where
  "isWhiteSpace charCode =
     (charCode = Some 9 \<or> charCode = Some 32 \<or> charCode = Some 11 \<or> charCode = Some 12)"

definition isLineTerminator :: "nat option \<Rightarrow> bool" where
  "isLineTerminator charCode = (charCode = Some 10 \<or> charCode = Some 13)"

definition isDecDigit :: "nat option \<Rightarrow> bool" where
  "isDecDigit charCode = (case charCode of None \<Rightarrow> False | Some c \<Rightarrow> 48 \<le> c \<and> c \<le> 57)"

definition isHexDigit :: "nat option \<Rightarrow> bool" where
  "isHexDigit charCode =
     (case charCode of
        None \<Rightarrow> False
      | Some c \<Rightarrow> (48 \<le> c \<and> c \<le> 57) \<or> (97 \<le> c \<and> c \<le> 102) \<or> (65 \<le> c \<and> c \<le> 70))"

definition isIdentifierStart :: "tokenizerOptions \<Rightarrow> nat option \<Rightarrow> bool" where
  "isIdentifierStart opts charCode =
     (case charCode of
        None \<Rightarrow> False
      | Some c \<Rightarrow>
          if (65 \<le> c \<and> c \<le> 90) \<or> (97 \<le> c \<and> c \<le> 122) \<or> 95 = c then True
          else if extendedIdentifiers opts \<and> 128 \<le> c then True
          else False)"

definition isIdentifierPart :: "tokenizerOptions \<Rightarrow> nat option \<Rightarrow> bool" where
  "isIdentifierPart opts charCode =
     (case charCode of
        None \<Rightarrow> False
      | Some c \<Rightarrow>
          if (65 \<le> c \<and> c \<le> 90) \<or> (97 \<le> c \<and> c \<le> 122) \<or> 95 = c \<or> (48 \<le> c \<and> c \<le> 57)
          then True
          else if extendedIdentifiers opts \<and> 128 \<le> c then True
          else False)"

text \<open>The loops of the shape \<open>while (p(input.charCodeAt(i))) ++i\<close>. Every class
  \<open>p\<close> used is false at NaN, the value of \<open>charCodeAt\<close> beyond the end, which is
  the bound \<open>i < length input\<close> written here.\<close>

function scan_while :: "(nat option \<Rightarrow> bool) \<Rightarrow> jsstring \<Rightarrow> nat \<Rightarrow> nat" where
  "scan_while p input i =
     (if i < length input \<and> p (charCodeAt input i) then scan_while p input (Suc i) else i)"
  by pat_completeness auto
termination
  by (relation "measure (\<lambda>(p, input, i). length input - i)") auto

declare scan_while.simps [simp del]

definition consumeEOL :: "jsstring \<Rightarrow> cursor \<Rightarrow> bool \<times> cursor" where
  "consumeEOL input st =
     (let charCode = charCodeAt input (index st);
          peekCharCode = charCodeAt input (index st + 1)
      in if isLineTerminator charCode then
           let i1 = (if charCode = Some 10 \<and> peekCharCode = Some 13
                     then index st + 1 else index st);
               i2 = (if charCode = Some 13 \<and> peekCharCode = Some 10 then i1 + 1 else i1)
           in (True, st\<lparr>index := i2 + 1, line := line st + 1, lineStart := i2 + 1\<rparr>)
         else (False, st))"

lemma consumeEOL_False:
  "\<not> isLineTerminator (charCodeAt input (index st)) \<Longrightarrow> consumeEOL input st = (False, st)"
  by (simp add: consumeEOL_def Let_def)

definition eol_width :: "jsstring \<Rightarrow> nat \<Rightarrow> nat" where
  "eol_width input i =
     (if (charCodeAt input i = Some 10 \<and> charCodeAt input (i + 1) = Some 13)
         \<or> (charCodeAt input i = Some 13 \<and> charCodeAt input (i + 1) = Some 10)
      then 2 else 1)"

lemma consumeEOL_True:
  "isLineTerminator (charCodeAt input (index st)) \<Longrightarrow>
   consumeEOL input st =
     (True, st\<lparr>index := index st + eol_width input (index st), line := line st + 1,
               lineStart := index st + eol_width input (index st)\<rparr>)"
  unfolding consumeEOL_def Let_def eol_width_def
  by auto

lemma isLineTerminator_in_range:
  "isLineTerminator (charCodeAt input i) \<Longrightarrow> i < length input"
  by (cases "i < length input") (simp_all add: isLineTerminator_def charCodeAt_def)

lemma consumeEOL_progress:
  assumes "consumeEOL input st = (True, st')"
  shows "index st < index st'"
proof (cases "isLineTerminator (charCodeAt input (index st))")
  case True
  from consumeEOL_True [OF True] assms
  have "index st' = index st + eol_width input (index st)" by auto
  then show ?thesis by (simp add: eol_width_def)
next
  case False
  from consumeEOL_False [OF False] assms show ?thesis by simp
qed

lemma consumeEOL_mono: "index st \<le> index (snd (consumeEOL input st))"
proof (cases "isLineTerminator (charCodeAt input (index st))")
  case True
  show ?thesis by (simp add: consumeEOL_True [OF True])
next
  case False
  show ?thesis by (simp add: consumeEOL_False [OF False])
qed

function skipWhiteSpace :: "jsstring \<Rightarrow> cursor \<Rightarrow> cursor" where
  "skipWhiteSpace input st =
     (if index st < length input then
        if isWhiteSpace (charCodeAt input (index st))
        then skipWhiteSpace input (st\<lparr>index := index st + 1\<rparr>)
        else (case consumeEOL input st of
                (True, st') \<Rightarrow> skipWhiteSpace input st'
              | (False, st') \<Rightarrow> st')
      else st)"
  by pat_completeness auto
termination
proof (relation "measure (\<lambda>(input, st). length input - index st)", goal_cases)
  case 1
  show ?case by simp
next
  case (2 input st)
  then show ?case by simp
next
  case (3 input st x y)
  then have "consumeEOL input st = (True, y)" by simp
  from consumeEOL_progress [OF this] 3 show ?case by simp
qed

declare skipWhiteSpace.simps [simp del]

lemma skipWhiteSpace_mono: "index st \<le> index (skipWhiteSpace input st)"
proof (induction input st rule: skipWhiteSpace.induct)
  case (1 input st)
  show ?case
  proof (cases "index st < length input")
    case False
    then show ?thesis by (simp add: skipWhiteSpace.simps [of input st])
  next
    case inr: True
    show ?thesis
    proof (cases "isWhiteSpace (charCodeAt input (index st))")
      case True
      with inr "1.IH"(1) show ?thesis
        by (simp add: skipWhiteSpace.simps [of input st])
    next
      case ws: False
      show ?thesis
      proof (cases "consumeEOL input st")
        case (Pair b st')
        show ?thesis
        proof (cases b)
          case True
          with Pair inr ws "1.IH"(2) [of b st'] consumeEOL_progress [of input st st']
          show ?thesis by (simp add: skipWhiteSpace.simps [of input st])
        next
          case False
          with Pair inr ws consumeEOL_mono [of st input]
          show ?thesis by (simp add: skipWhiteSpace.simps [of input st])
        qed
      qed
    qed
  qed
qed

text \<open>\<open>while (isLineTerminator(input.charCodeAt(index))) consumeEOL()\<close>, the inner loop
  of the long-bracket reader.\<close>

function skipEOLs :: "jsstring \<Rightarrow> cursor \<Rightarrow> cursor" where
  "skipEOLs input st =
     (if isLineTerminator (charCodeAt input (index st))
      then skipEOLs input (snd (consumeEOL input st))
      else st)"
  by pat_completeness auto
termination
proof (relation "measure (\<lambda>(input, st). length input - index st)", goal_cases)
  case 1
  show ?case by simp
next
  case (2 input st)
  have "index (snd (consumeEOL input st)) = index st + eol_width input (index st)"
    by (simp add: consumeEOL_True [OF 2])
  moreover have "0 < eol_width input (index st)" by (simp add: eol_width_def)
  moreover note isLineTerminator_in_range [OF 2]
  ultimately show ?case by simp
qed

declare skipEOLs.simps [simp del]

lemma skipEOLs_mono: "index st \<le> index (skipEOLs input st)"
proof (induction input st rule: skipEOLs.induct)
  case (1 input st)
  show ?case
  proof (cases "isLineTerminator (charCodeAt input (index st))")
    case True
    with "1.IH" consumeEOL_mono [of st input] show ?thesis
      by (simp add: skipEOLs.simps [of input st])
  next
    case False
    then show ?thesis by (simp add: skipEOLs.simps [of input st])
  qed
qed

lemma scan_while_mono: "i \<le> scan_while p input i"
proof (induction p input i rule: scan_while.induct)
  case (1 p input i)
  show ?case
  proof (cases "i < length input \<and> p (charCodeAt input i)")
    case True
    with "1.IH" have "Suc i \<le> scan_while p input (Suc i)" by simp
    with True show ?thesis by (simp add: scan_while.simps [of p input i])
  next
    case False
    then show ?thesis by (auto simp: scan_while.simps [of p input i])
  qed
qed

subsection \<open>Encoding fixup\<close>

definition encodeUTF8 :: "nat option \<Rightarrow> jsstring option" where
  "encodeUTF8 codepoint =
     (case codepoint of
        None \<Rightarrow> None
      | Some cp \<Rightarrow>
          if cp < 0x80 then Some [cp]
          else if cp < 0x800 then Some [0xc0 OR drop_bit 6 cp, 0x80 OR (cp AND 0x3f)]
          else if cp < 0x10000 then
            Some [0xe0 OR drop_bit 12 cp, 0x80 OR (drop_bit 6 cp AND 0x3f),
                  0x80 OR (cp AND 0x3f)]
          else if cp < 0x110000 then
            Some [0xf0 OR drop_bit 18 cp, 0x80 OR (drop_bit 12 cp AND 0x3f),
                  0x80 OR (drop_bit 6 cp AND 0x3f), 0x80 OR (cp AND 0x3f)]
          else None)"

text \<open>\<open>nullthrows\<close> raises on null. \<open>encodeUTF8\<close> is null from 0x110000 on only,
  which neither a 16-bit code unit nor a surrogate pair reaches; the empty string stands
  for that unreachable case.\<close>

definition nullthrows :: "jsstring option \<Rightarrow> jsstring" where
  "nullthrows x = (case x of None \<Rightarrow> [] | Some s \<Rightarrow> s)"

fun fixupHighCharacters :: "jsstring \<Rightarrow> jsstring" where
  "fixupHighCharacters [] = []"
| "fixupHighCharacters [a] =
     (if 0x7f < a then nullthrows (encodeUTF8 (Some a)) else [a])"
| "fixupHighCharacters (a # b # s) =
     (if 0xd800 \<le> a \<and> a \<le> 0xdbff \<and> 0xdc00 \<le> b \<and> b \<le> 0xdfff then
        nullthrows
          (encodeUTF8 (Some (0x10000 + (push_bit 10 (a AND 0x3ff) OR (b AND 0x3ff)))))
        @ fixupHighCharacters s
      else if 0x7f < a then nullthrows (encodeUTF8 (Some a)) @ fixupHighCharacters (b # s)
      else a # fixupHighCharacters (b # s))"

subsection \<open>Identifiers, punctuators, numbers\<close>

definition scanIdentifierOrKeyword ::
  "jsstring \<Rightarrow> tokenizerOptions \<Rightarrow> features \<Rightarrow> cursor \<Rightarrow> token \<times> cursor" where
  "scanIdentifierOrKeyword input opts f st =
     (let i = scan_while (isIdentifierPart opts) input (index st + 1);
          st' = st\<lparr>index := i\<rparr>;
          v = fixupHighCharacters (slice input (tokenStart st) i);
          tok = (\<lambda>ty val.
                  \<lparr>tok_type = ty, tok_value = val, tok_line = line st,
                   tok_lineStart = lineStart st, tok_range = (tokenStart st, i),
                   tok_lastLine = None, tok_lastLineStart = None\<rparr>)
      in if isKeyword f v then (tok Keyword (VString v), st')
         else if v = str ''true'' \<or> v = str ''false''
              then (tok BooleanLiteral (VBool (v = str ''true'')), st')
         else if v = str ''nil'' then (tok NilLiteral VNull, st')
         else (tok Identifier (VString v), st'))"

definition scanPunctuator :: "jsstring \<Rightarrow> cursor \<Rightarrow> token \<times> cursor" where
  "scanPunctuator v st =
     (let i = index st + length v
      in (\<lparr>tok_type = Punctuator, tok_value = VString v, tok_line = line st,
           tok_lineStart = lineStart st, tok_range = (tokenStart st, i),
           tok_lastLine = None, tok_lastLineStart = None\<rparr>,
          st\<lparr>index := i\<rparr>))"

definition scanVarargLiteral :: "cursor \<Rightarrow> token \<times> cursor" where
  "scanVarargLiteral st =
     (let i = index st + 3
      in (\<lparr>tok_type = VarargLiteral, tok_value = VString (str ''...''),
           tok_line = line st, tok_lineStart = lineStart st,
           tok_range = (tokenStart st, i), tok_lastLine = None,
           tok_lastLineStart = None\<rparr>,
          st\<lparr>index := i\<rparr>))"

text \<open>\<open>readHexLiteral\<close> in two parts. The second part is the block of the optional
  binary exponent together with the final \<open>return (digit + fraction) * binaryExponent\<close>;
  it takes the sum \<open>digit + fraction\<close> and the position \<open>i3\<close> that \<open>index\<close> has
  reached behind the fraction.\<close>

definition readBinaryExponent ::
  "jsstring \<Rightarrow> cursor \<Rightarrow> jsnumber \<Rightarrow> nat \<Rightarrow> lex_error + jsnumber \<times> cursor" where
  "readBinaryExponent input st mantissa i3 =
     (if is_one_of (str ''pP'') (charAt input i3) then
        let i4 = i3 + 1;
            signed = is_one_of (str ''+-'') (charAt input i4);
            binarySign = (if signed then if charAt input i4 = [43] then 1 else - 1
                          else (1 :: int));
            exponentStart = (if signed then i4 + 1 else i4)
        in if \<not> isDecDigit (charCodeAt input exponentStart) then
             Inl (tokenError malformedNumber (line st) (lineStart st)
                    (tokenStart st, exponentStart + 1) None)
           else
             let i6 = scan_while isDecDigit input exponentStart;
                 binaryExponent = parseInt (slice input exponentStart i6) 10;
                 power = math_pow 2 (map_option (\<lambda>e. int e * binarySign) binaryExponent)
             in Inr (num_mul mantissa power, st\<lparr>index := i6\<rparr>)
      else Inr (num_mul mantissa (Some 1), st\<lparr>index := i3\<rparr>))"

definition readHexLiteral :: "jsstring \<Rightarrow> cursor \<Rightarrow> lex_error + jsnumber \<times> cursor" where
  "readHexLiteral input st =
     (let digitStart = index st + 2
      in if \<not> isHexDigit (charCodeAt input digitStart) then
           Inl (tokenError malformedNumber (line st) (lineStart st)
                  (tokenStart st, digitStart) None)
         else
           let i2 = scan_while isHexDigit input digitStart;
               digit = num_of_nat (parseInt (slice input digitStart i2) 16);
               fractionStart = i2 + 1;
               i3 = (if charAt input i2 = [46]
                     then scan_while isHexDigit input fractionStart else i2);
               fraction =
                 (if charAt input i2 = [46] then
                    if fractionStart = i3 then Some 0
                    else num_div (num_of_nat (parseInt (slice input fractionStart i3) 16))
                           (math_pow 16 (Some (int (i3 - fractionStart))))
                  else Some 0)
           in readBinaryExponent input st (num_add digit fraction) i3)"

text \<open>\<open>parseFloat\<close> on the text the decimal reader has consumed: digits, an optional
  point and digits, an optional exponent. It reads the longest prefix that is a decimal
  literal, and is NaN when there is none.\<close>

definition is_dec :: "nat \<Rightarrow> bool" where
  "is_dec c = (48 \<le> c \<and> c \<le> 57)"

definition parseFloat :: "jsstring \<Rightarrow> jsnumber" where
  "parseFloat s =
     (let ip = takeWhile is_dec s;
          r1 = dropWhile is_dec s;
          fp = (case r1 of c # t \<Rightarrow> if c = 46 then takeWhile is_dec t else [] | [] \<Rightarrow> []);
          r2 = (case r1 of c # t \<Rightarrow> if c = 46 then dropWhile is_dec t else r1 | [] \<Rightarrow> []);
          mantissa = rat_of_nat (parse_digits 10 0 ip)
                     + rat_of_nat (parse_digits 10 0 fp) / 10 ^ length fp;
          edigits = (\<lambda>ds sg. if takeWhile is_dec ds = [] then 0
                              else sg * int (parse_digits 10 0 (takeWhile is_dec ds)));
          e = (case r2 of
                 [] \<Rightarrow> 0
               | c # t \<Rightarrow>
                   if c = 101 \<or> c = 69 then
                     (case t of
                        [] \<Rightarrow> 0
                      | d # ds \<Rightarrow> if d = 43 then edigits ds 1
                                  else if d = 45 then edigits ds (- 1)
                                  else edigits t 1)
                   else 0)
      in if ip = [] \<and> fp = [] then None else Some (mantissa * pow_int 10 e))"

definition readDecLiteral :: "jsstring \<Rightarrow> cursor \<Rightarrow> lex_error + jsnumber \<times> cursor" where
  "readDecLiteral input st =
     (let i1 = scan_while isDecDigit input (index st);
          i2 = (if charAt input i1 = [46] then scan_while isDecDigit input (i1 + 1) else i1)
      in if is_one_of (str ''eE'') (charAt input i2) then
           let i3 = i2 + 1;
               i4 = (if is_one_of (str ''+-'') (charAt input i3) then i3 + 1 else i3)
           in if \<not> isDecDigit (charCodeAt input i4) then
                Inl (tokenError malformedNumber (line st) (lineStart st)
                       (tokenStart st, i4 + 1) None)
              else
                let i5 = scan_while isDecDigit input i4
                in Inr (parseFloat (slice input (tokenStart st) i5), st\<lparr>index := i5\<rparr>)
         else Inr (parseFloat (slice input (tokenStart st) i2), st\<lparr>index := i2\<rparr>))"

definition scanNumericLiteral :: "jsstring \<Rightarrow> cursor \<Rightarrow> lex_error + token \<times> cursor" where
  "scanNumericLiteral input st =
     (let character = charAt input (index st);
          next = charAt input (index st + 1)
      in case (if character = [48] \<and> is_one_of (str ''xX'') next
               then readHexLiteral input st else readDecLiteral input st) of
           Inl e \<Rightarrow> Inl e
         | Inr (v, st') \<Rightarrow>
             Inr (\<lparr>tok_type = NumericLiteral, tok_value = VNumber v, tok_line = line st',
                   tok_lineStart = lineStart st', tok_range = (tokenStart st', index st'),
                   tok_lastLine = None, tok_lastLineStart = None\<rparr>,
                  st'))"

subsection \<open>Escape sequences\<close>

lemma isHexDigit_in_range: "isHexDigit (charCodeAt input i) \<Longrightarrow> i < length input"
  by (cases "i < length input") (simp_all add: isHexDigit_def charCodeAt_def)

lemma isDecDigit_in_range: "isDecDigit (charCodeAt input i) \<Longrightarrow> i < length input"
  by (cases "i < length input") (simp_all add: isDecDigit_def charCodeAt_def)

text \<open>The digit loop of the codepoint escape: it raises once a seventh significant digit
  has been read.\<close>

function unicodeDigits :: "jsstring \<Rightarrow> cursor \<Rightarrow> nat \<Rightarrow> nat \<Rightarrow> lex_error + nat" where
  "unicodeDigits input st escStart i =
     (if isHexDigit (charCodeAt input i) then
        if 6 < Suc i - escStart then
          Inl (tokenError tooLargeCodepoint (line st) (lineStart st) (escStart, Suc i) None)
        else unicodeDigits input st escStart (Suc i)
      else Inr i)"
  by pat_completeness auto
termination
proof (relation "measure (\<lambda>(input, st, escStart, i). length input - i)", goal_cases)
  case 1
  show ?case by simp
next
  case (2 input st escStart i)
  from isHexDigit_in_range [OF 2(1)] show ?case by simp
qed

declare unicodeDigits.simps [simp del]

lemma unicodeDigits_mono: "unicodeDigits input st escStart i = Inr j \<Longrightarrow> i \<le> j"
proof (induction input st escStart i rule: unicodeDigits.induct)
  case (1 input st escStart i)
  show ?case
  proof (cases "isHexDigit (charCodeAt input i)")
    case False
    with "1.prems" show ?thesis by (simp add: unicodeDigits.simps [of input st escStart i])
  next
    case hex: True
    show ?thesis
    proof (cases "6 < Suc i - escStart")
      case True
      with hex "1.prems" show ?thesis
        by (simp add: unicodeDigits.simps [of input st escStart i])
    next
      case False
      with hex "1.prems" have "unicodeDigits input st escStart (Suc i) = Inr j"
        by (simp add: unicodeDigits.simps [of input st escStart i])
      from "1.IH" [OF hex False this] show ?thesis by simp
    qed
  qed
qed

definition readUnicodeEscapeSequence ::
  "jsstring \<Rightarrow> cursor \<Rightarrow> lex_error + jsstring \<times> cursor" where
  "readUnicodeEscapeSequence input st =
     (let sequenceStart = index st;
          i1 = index st + 1;
          i2 = i1 + 1
      in if charAt input i1 \<noteq> [123] then
           Inl (tokenError missingInEscape (line st) (lineStart st)
                  (sequenceStart + 1, sequenceStart + 2) (Some [123]))
         else if \<not> isHexDigit (charCodeAt input i2) then
           Inl (tokenError hexDigitExpected (line st) (lineStart st) (i2, i2 + 1) None)
         else
           let escStart = scan_while (\<lambda>c. c = Some 0x30) input i2
           in case unicodeDigits input st escStart escStart of
                Inl e \<Rightarrow> Inl e
              | Inr i3 \<Rightarrow>
                  let b = charAt input i3;
                      i4 = i3 + 1
                  in if b \<noteq> [125] then
                       if b = [34] \<or> b = [39] then
                         Inl (tokenError missingInEscape (line st) (lineStart st)
                                (sequenceStart, i4 - 1) (Some [125]))
                       else
                         Inl (tokenError hexDigitExpected (line st) (lineStart st)
                                (i4 - 1, i4) None)
                     else
                       let codepoint_int = parseInt (slice input escStart (i4 - 1)) 16
                       in case encodeUTF8 codepoint_int of
                            None \<Rightarrow>
                              Inl (tokenError tooLargeCodepoint (line st) (lineStart st)
                                     (sequenceStart + 2, i4 - 1) None)
                          | Some codepoint \<Rightarrow> Inr (codepoint, st\<lparr>index := i4\<rparr>))"

lemma readUnicodeEscapeSequence_mono:
  assumes "readUnicodeEscapeSequence input st = Inr (s, st')"
  shows "index st \<le> index st'"
proof -
  define escStart where "escStart = scan_while (\<lambda>c. c = Some 0x30) input (index st + 1 + 1)"
  have a: "index st + 1 + 1 \<le> escStart"
    unfolding escStart_def by (rule scan_while_mono)
  from assms obtain i3 where i3: "unicodeDigits input st escStart escStart = Inr i3"
    and st': "index st' = i3 + 1"
    by (auto simp: readUnicodeEscapeSequence_def Let_def escStart_def
             split: if_splits sum.splits option.splits)
  from unicodeDigits_mono [OF i3] a st' show ?thesis by simp
qed

text \<open>\<open>String.fromCharCode\<close> of a number that \<open>parseInt\<close> returned; NaN gives the
  code unit 0.\<close>

definition fromCharCode :: "nat option \<Rightarrow> jsstring" where
  "fromCharCode n = (case n of None \<Rightarrow> [0] | Some c \<Rightarrow> [c mod 65536])"

text \<open>\<open>while (isDecDigit(input.charCodeAt(index)) && index - sequenceStart < 3) ++index\<close>\<close>

function scanDecimalEscape :: "jsstring \<Rightarrow> nat \<Rightarrow> nat \<Rightarrow> nat" where
  "scanDecimalEscape input sequenceStart i =
     (if isDecDigit (charCodeAt input i) \<and> i - sequenceStart < 3
      then scanDecimalEscape input sequenceStart (Suc i) else i)"
  by pat_completeness auto
termination
  by (relation "measure (\<lambda>(input, sequenceStart, i). sequenceStart + 3 - i)") auto

declare scanDecimalEscape.simps [simp del]

lemma scanDecimalEscape_mono: "i \<le> scanDecimalEscape input sequenceStart i"
proof (induction input sequenceStart i rule: scanDecimalEscape.induct)
  case (1 input sequenceStart i)
  show ?case
  proof (cases "isDecDigit (charCodeAt input i) \<and> i - sequenceStart < 3")
    case True
    with "1.IH" have "Suc i \<le> scanDecimalEscape input sequenceStart (Suc i)" by simp
    with True show ?thesis by (simp add: scanDecimalEscape.simps [of input sequenceStart i])
  next
    case False
    then show ?thesis by (auto simp: scanDecimalEscape.simps [of input sequenceStart i])
  qed
qed

text \<open>The switch of \<open>readEscapeSequence\<close> falls through from \<open>case "z"\<close> to
  \<open>case "x"\<close>, to \<open>case "u"\<close>, to \<open>default\<close> and to the cases of the backslash
  and the quotes. Each label is a function here, calling the next label where the
  source falls through. The cursor stands on the character after the backslash. The
  ten cases \<open>"0"\<close> to \<open>"9"\<close> are written as \<open>isDecDigit\<close> of that character.\<close>

definition escapeLiteral :: "jsstring \<Rightarrow> cursor \<Rightarrow> lex_error + jsstring \<times> cursor" where
  "escapeLiteral input st = Inr (charAt input (index st), st\<lparr>index := index st + 1\<rparr>)"

definition escapeDefault ::
  "jsstring \<Rightarrow> features \<Rightarrow> cursor \<Rightarrow> lex_error + jsstring \<times> cursor" where
  "escapeDefault input f st =
     (if strictEscapes f then
        Inl (tokenError invalidEscape (line st) (lineStart st)
               (index st, index st + 1) None)
      else escapeLiteral input st)"

definition escapeU ::
  "jsstring \<Rightarrow> features \<Rightarrow> cursor \<Rightarrow> lex_error + jsstring \<times> cursor" where
  "escapeU input f st =
     (if unicodeEscapes f then readUnicodeEscapeSequence input st
      else escapeDefault input f st)"

definition escapeX ::
  "jsstring \<Rightarrow> features \<Rightarrow> cursor \<Rightarrow> lex_error + jsstring \<times> cursor" where
  "escapeX input f st =
     (if hexEscapes f then
        if isHexDigit (charCodeAt input (index st + 1))
           \<and> isHexDigit (charCodeAt input (index st + 2))
        then Inr (fromCharCode (parseInt (slice input (index st + 1) (index st + 3)) 16),
                  st\<lparr>index := index st + 3\<rparr>)
        else
          let non_hex = (if isHexDigit (charCodeAt input (index st + 1))
                         then index st + 2 else index st + 1)
          in Inl (tokenError hexDigitExpected (line st) (lineStart st)
                    (non_hex, non_hex + 1) None)
      else escapeU input f st)"

definition escapeZ ::
  "jsstring \<Rightarrow> features \<Rightarrow> cursor \<Rightarrow> lex_error + jsstring \<times> cursor" where
  "escapeZ input f st =
     (if skipWhitespaceEscape f then
        Inr ([], skipWhiteSpace input (st\<lparr>index := index st + 1\<rparr>))
      else escapeX input f st)"

definition readEscapeSequence ::
  "jsstring \<Rightarrow> features \<Rightarrow> cursor \<Rightarrow> lex_error + jsstring \<times> cursor" where
  "readEscapeSequence input f st =
     (let sequenceStart = index st;
          c = charAt input (index st);
          st1 = st\<lparr>index := index st + 1\<rparr>
      in if c = str ''a'' then Inr ([7], st1)
         else if c = str ''n'' then Inr ([10], st1)
         else if c = str ''r'' then Inr ([13], st1)
         else if c = str ''t'' then Inr ([9], st1)
         else if c = str ''v'' then Inr ([11], st1)
         else if c = str ''b'' then Inr ([8], st1)
         else if c = str ''f'' then Inr ([12], st1)
         else if c = [13] \<or> c = [10] then Inr ([10], snd (consumeEOL input st))
         else if isDecDigit (charCodeAt input (index st)) then
           let i = scanDecimalEscape input sequenceStart (index st);
               ddd = parseInt (slice input sequenceStart i) 10
           in if (case ddd of None \<Rightarrow> False | Some d \<Rightarrow> 255 < d) then
                Inl (tokenError decimalEscapeTooLarge (line st) (lineStart st)
                       (sequenceStart, i) None)
              else Inr (fromCharCode ddd, st\<lparr>index := i\<rparr>)
         else if c = str ''z'' then escapeZ input f st
         else if c = str ''x'' then escapeX input f st
         else if c = str ''u'' then escapeU input f st
         else if c = [92] \<or> c = [34] \<or> c = [39] then escapeLiteral input st
         else escapeDefault input f st)"

lemma escapeLiteral_mono:
  "escapeLiteral input st = Inr (s, st') \<Longrightarrow> index st \<le> index st'"
  by (auto simp: escapeLiteral_def)

lemma escapeDefault_mono:
  "escapeDefault input f st = Inr (s, st') \<Longrightarrow> index st \<le> index st'"
  by (auto simp: escapeDefault_def split: if_splits dest: escapeLiteral_mono)

lemma escapeU_mono:
  "escapeU input f st = Inr (s, st') \<Longrightarrow> index st \<le> index st'"
  by (auto simp: escapeU_def split: if_splits
           dest: escapeDefault_mono readUnicodeEscapeSequence_mono)

lemma escapeX_mono:
  "escapeX input f st = Inr (s, st') \<Longrightarrow> index st \<le> index st'"
  by (auto simp: escapeX_def Let_def split: if_splits dest: escapeU_mono)

lemma escapeZ_mono:
  assumes "escapeZ input f st = Inr (s, st')"
  shows "index st \<le> index st'"
proof (cases "skipWhitespaceEscape f")
  case True
  with assms have "st' = skipWhiteSpace input (st\<lparr>index := index st + 1\<rparr>)"
    by (simp add: escapeZ_def)
  with skipWhiteSpace_mono [of "st\<lparr>index := index st + 1\<rparr>" input] show ?thesis by simp
next
  case False
  with assms show ?thesis by (auto simp: escapeZ_def dest: escapeX_mono)
qed

lemma readEscapeSequence_mono:
  assumes "readEscapeSequence input f st = Inr (s, st')"
  shows "index st \<le> index st'"
proof -
  note m = consumeEOL_mono [of st input]
    scanDecimalEscape_mono [of "index st" input "index st"]
  from assms m show ?thesis
    by (auto simp: readEscapeSequence_def Let_def split: if_splits
             dest: escapeZ_mono escapeX_mono escapeU_mono escapeLiteral_mono
                   escapeDefault_mono)
qed

subsection \<open>Short strings\<close>

text \<open>The loop of \<open>scanStringLiteral\<close>. Its state is the local \<open>stringStart\<close>, the
  text decoded so far and the cursor; it ends at the closing delimiter (the \<open>break\<close>),
  at an error, or when its condition \<open>index < input.length\<close> fails.\<close>

function scanStringLoop ::
  "jsstring \<Rightarrow> features \<Rightarrow> nat option \<Rightarrow> nat \<Rightarrow> nat \<Rightarrow> nat \<Rightarrow> jsstring \<Rightarrow> cursor
   \<Rightarrow> lex_error + nat \<times> jsstring \<times> cursor" where
  "scanStringLoop input f delimiter beginLine beginLineStart stringStart string st =
     (if index st < length input then
        let charCode = charCodeAt input (index st);
            st1 = st\<lparr>index := index st + 1\<rparr>
        in if charCode = delimiter then Inr (stringStart, string, st1)
           else
             case (if charCode = Some 92 then
                     case readEscapeSequence input f st1 of
                       Inl e \<Rightarrow> Inl e
                     | Inr (esc, st2) \<Rightarrow>
                         Inr (index st2,
                              string
                              @ fixupHighCharacters (slice input stringStart (index st1 - 1))
                              @ esc,
                              st2)
                   else Inr (stringStart, string, st1)) of
               Inl e \<Rightarrow> Inl e
             | Inr (stringStart', string', st3) \<Rightarrow>
                 if length input \<le> index st3 \<or> isLineTerminator charCode then
                   Inl (tokenError unfinishedString beginLine beginLineStart
                          (stringStart' - 1, index st3 - 1) None)
                 else scanStringLoop input f delimiter beginLine beginLineStart
                        stringStart' string' st3
      else Inr (stringStart, string, st))"
  by pat_completeness auto
termination
proof (relation "measure (\<lambda>(input, f, d, bl, bls, ss, s, st). length input - index st)",
       goal_cases)
  case 1
  show ?case by simp
next
  case (2 input f delimiter beginLine beginLineStart stringStart string st
          charCode st1 r ss rest s' st3)
  have "index st < index st3"
  proof (cases "charCode = Some 92")
    case True
    with 2 obtain esc where "readEscapeSequence input f st1 = Inr (esc, st3)"
      by (auto split: sum.splits)
    from readEscapeSequence_mono [OF this] 2 show ?thesis by simp
  next
    case False
    with 2 show ?thesis by auto
  qed
  moreover from 2 have "r = (ss, s', st3)" by auto
  moreover from 2 have "index st < length input" by simp
  ultimately show ?case by simp
qed

declare scanStringLoop.simps [simp del]

definition scanStringLiteral ::
  "jsstring \<Rightarrow> features \<Rightarrow> cursor \<Rightarrow> lex_error + token \<times> cursor" where
  "scanStringLiteral input f st =
     (let delimiter = charCodeAt input (index st);
          st1 = st\<lparr>index := index st + 1\<rparr>;
          beginLine = line st;
          beginLineStart = lineStart st
      in case scanStringLoop input f delimiter beginLine beginLineStart
                (index st1) [] st1 of
           Inl e \<Rightarrow> Inl e
         | Inr (stringStart, string, st') \<Rightarrow>
             Inr (\<lparr>tok_type = StringLiteral,
                   tok_value =
                     VString (string
                              @ fixupHighCharacters
                                  (slice input stringStart (index st' - 1))),
                   tok_line = beginLine, tok_lineStart = beginLineStart,
                   tok_range = (tokenStart st', index st'),
                   tok_lastLine = Some (line st'),
                   tok_lastLineStart = Some (lineStart st')\<rparr>,
                  st'))"

subsection \<open>Long brackets\<close>

text \<open>\<open>for (let i = 0; i < level; ++i) if ("=" !== input.charAt(index + i)) terminator = false\<close>:
  the first \<open>level\<close> characters from \<open>index\<close> on are all \<open>=\<close>.\<close>

fun levelMatches :: "jsstring \<Rightarrow> nat \<Rightarrow> nat \<Rightarrow> bool" where
  "levelMatches input i 0 = True"
| "levelMatches input i (Suc n) = (levelMatches input i n \<and> charAt input (i + n) = [61])"

text \<open>The test made after a character has been read at position \<open>i\<close> (the cursor
  then stands at \<open>i + 1\<close>): the character is \<open>]\<close>, the next \<open>level\<close> characters
  are \<open>=\<close>, and the one after them is \<open>]\<close>.\<close>

definition closesAt :: "jsstring \<Rightarrow> nat \<Rightarrow> nat \<Rightarrow> bool" where
  "closesAt input level i =
     (charAt input i = [93] \<and> levelMatches input (i + 1) level
      \<and> charAt input (i + 1 + level) = [93])"

function longStringLoop ::
  "jsstring \<Rightarrow> bool \<Rightarrow> nat \<Rightarrow> nat \<Rightarrow> nat \<Rightarrow> nat \<Rightarrow> nat \<Rightarrow> cursor
   \<Rightarrow> lex_error + jsstring option \<times> cursor" where
  "longStringLoop input isComment level firstLine firstLineStart from stringStart st =
     (if index st < length input then
        let st1 = skipEOLs input st;
            terminator = closesAt input level (index st1);
            st2 = st1\<lparr>index := index st1 + 1\<rparr>
        in if terminator then
             Inr (Some (slice input stringStart (index st2 - 1)),
                  st2\<lparr>index := index st2 + level + 1\<rparr>)
           else longStringLoop input isComment level firstLine firstLineStart from
                  stringStart st2
      else
        Inl (tokenError (if isComment then unfinishedLongComment else unfinishedLongString)
               firstLine firstLineStart (from, from + level + 1) None))"
  by pat_completeness auto
termination
proof (relation "measure (\<lambda>(input, c, l, fl, fls, fr, ss, st). length input - index st)",
       goal_cases)
  case 1
  show ?case by simp
next
  case (2 input isComment level firstLine firstLineStart "from" stringStart st
          st1 terminator st2)
  with skipEOLs_mono [of st input] show ?case by simp
qed

declare longStringLoop.simps [simp del]

lemma longStringLoop_end:
  "\<not> index st < length input \<Longrightarrow>
   longStringLoop input c level fl fls fr ss st =
     Inl (tokenError (if c then unfinishedLongComment else unfinishedLongString)
            fl fls (fr, fr + level + 1) None)"
  by (simp add: longStringLoop.simps [of input c level fl fls fr ss st])

lemma longStringLoop_close:
  "index st < length input \<Longrightarrow> closesAt input level (index (skipEOLs input st)) \<Longrightarrow>
   longStringLoop input c level fl fls fr ss st =
     Inr (Some (slice input ss (index (skipEOLs input st))),
          (skipEOLs input st)\<lparr>index := index (skipEOLs input st) + 1 + level + 1\<rparr>)"
  by (simp add: longStringLoop.simps [of input c level fl fls fr ss st] Let_def)

lemma longStringLoop_step:
  "index st < length input \<Longrightarrow> \<not> closesAt input level (index (skipEOLs input st)) \<Longrightarrow>
   longStringLoop input c level fl fls fr ss st =
     longStringLoop input c level fl fls fr ss
       ((skipEOLs input st)\<lparr>index := index (skipEOLs input st) + 1\<rparr>)"
  by (simp add: longStringLoop.simps [of input c level fl fls fr ss st] Let_def)

lemma longStringLoop_mono:
  "longStringLoop input c level fl fls fr ss st = Inr (r, st') \<Longrightarrow> index st \<le> index st'"
proof (induction input c level fl fls fr ss st rule: longStringLoop.induct)
  case (1 input isComment level firstLine firstLineStart "from" stringStart st)
  let ?st1 = "skipEOLs input st"
  let ?st2 = "?st1\<lparr>index := index ?st1 + 1\<rparr>"
  from "1.prems" have inr: "index st < length input"
    by (cases "index st < length input") (simp_all add: longStringLoop_end)
  have m: "index st \<le> index ?st1" by (rule skipEOLs_mono)
  show ?case
  proof (cases "closesAt input level (index ?st1)")
    case True
    from "1.prems" m show ?thesis
      by (auto simp: longStringLoop_close [OF inr True])
  next
    case False
    from "1.prems"
    have "longStringLoop input isComment level firstLine firstLineStart from stringStart ?st2
          = Inr (r, st')"
      by (simp add: longStringLoop_step [OF inr False])
    from "1.IH" [OF inr refl refl refl _ this] False m show ?thesis by simp
  qed
qed

definition readLongString ::
  "jsstring \<Rightarrow> bool \<Rightarrow> cursor \<Rightarrow> lex_error + jsstring option \<times> cursor" where
  "readLongString input isComment st =
     (let firstLine = line st;
          firstLineStart = lineStart st;
          from = index st;
          i1 = index st + 1;
          level = scan_while (\<lambda>c. c = Some 61) input i1 - i1
      in if charAt input (i1 + level) \<noteq> [91] then Inr (None, st\<lparr>index := i1\<rparr>)
         else
           let st2 = st\<lparr>index := i1 + level + 1\<rparr>;
               st3 = (if isLineTerminator (charCodeAt input (index st2))
                      then snd (consumeEOL input st2) else st2);
               stringStart = index st3
           in longStringLoop input isComment level firstLine firstLineStart from
                stringStart st3)"

lemma readLongString_progress:
  assumes "readLongString input c st = Inr (r, st')"
  shows "index st < index st'"
proof -
  define level where "level = scan_while (\<lambda>c. c = Some 61) input (index st + 1) - (index st + 1)"
  define st2 where "st2 = st\<lparr>index := index st + 1 + level + 1\<rparr>"
  define st3 where "st3 = (if isLineTerminator (charCodeAt input (index st2))
                           then snd (consumeEOL input st2) else st2)"
  have eq: "readLongString input c st =
              (if charAt input (index st + 1 + level) \<noteq> [91]
               then Inr (None, st\<lparr>index := index st + 1\<rparr>)
               else longStringLoop input c level (line st) (lineStart st) (index st)
                      (index st3) st3)"
    by (simp add: readLongString_def Let_def level_def st2_def st3_def)
  have m3: "index st2 \<le> index st3"
    using consumeEOL_mono [of st2 input] by (simp add: st3_def)
  show ?thesis
  proof (cases "charAt input (index st + 1 + level) \<noteq> [91]")
    case True
    with assms eq show ?thesis by auto
  next
    case False
    with assms eq
    have "longStringLoop input c level (line st) (lineStart st) (index st) (index st3) st3
          = Inr (r, st')"
      by simp
    from longStringLoop_mono [OF this] m3 show ?thesis by (simp add: st2_def)
  qed
qed

definition scanLongStringLiteral :: "jsstring \<Rightarrow> cursor \<Rightarrow> lex_error + token \<times> cursor" where
  "scanLongStringLiteral input st =
     (let beginLine = line st;
          beginLineStart = lineStart st
      in case readLongString input False st of
           Inl e \<Rightarrow> Inl e
         | Inr (None, st') \<Rightarrow>
             let delim = scan_while (\<lambda>c. c = Some 61) input (index st')
             in Inl (tokenError invalidDelimiter beginLine beginLineStart
                       (delim, delim + 1) None)
         | Inr (Some string, st') \<Rightarrow>
             Inr (\<lparr>tok_type = StringLiteral,
                   tok_value = VString (fixupHighCharacters string),
                   tok_line = beginLine, tok_lineStart = beginLineStart,
                   tok_range = (tokenStart st', index st'),
                   tok_lastLine = Some (line st'),
                   tok_lastLineStart = Some (lineStart st')\<rparr>,
                  st'))"

subsection \<open>Comments\<close>

text \<open>\<open>scanComment\<close> takes the comment array of the options (\<open>None\<close> when the
  caller gave none) and returns it with the new record appended. It raises inside
  \<open>readLongString\<close> only, before anything is appended.\<close>

definition commentContent ::
  "jsstring \<Rightarrow> cursor \<Rightarrow> lex_error + jsstring \<times> bool \<times> cursor" where
  \<comment> \<open>the block \<open>if ("[" === character)\<close>: the content, \<open>isLong\<close> and the cursor\<close>
  "commentContent input st =
     (let character = charAt input (index st)
      in if character = [91] then
           case readLongString input True st of
             Inl e \<Rightarrow> Inl e
           | Inr (None, st') \<Rightarrow> Inr (character, False, st')
           | Inr (Some content, st') \<Rightarrow> Inr (content, True, st')
         else Inr ([], False, st))"

definition commentLine :: "jsstring \<Rightarrow> bool \<Rightarrow> cursor \<Rightarrow> cursor" where
  \<comment> \<open>the loop of the block \<open>if (!isLong)\<close>: on to the end of the line\<close>
  "commentLine input isLong st =
     (if \<not> isLong
      then st\<lparr>index := scan_while (\<lambda>c. \<not> isLineTerminator c) input (index st)\<rparr>
      else st)"

definition pushComment ::
  "jsstring \<Rightarrow> jsstring \<Rightarrow> cursor \<Rightarrow> comment list option \<Rightarrow> comment list option" where
  \<comment> \<open>the block \<open>if (options.comments)\<close> at the end\<close>
  "pushComment input content st cs =
     (case cs of
        None \<Rightarrow> None
      | Some l \<Rightarrow>
          Some (l @ [\<lparr>com_value = content,
                       com_raw = slice input (tokenStart st) (index st),
                       com_start = (line st, int (tokenStart st) - int (lineStart st)),
                       com_end = (line st, int (index st) - int (lineStart st)),
                       com_range = (tokenStart st, index st)\<rparr>]))"

definition scanComment ::
  "jsstring \<Rightarrow> cursor \<Rightarrow> comment list option \<Rightarrow> (lex_error + cursor) \<times> comment list option"
  where
  "scanComment input st cs =
     (let st1 = st\<lparr>tokenStart := index st, index := index st + 2\<rparr>;
          commentStart = index st1
      in case commentContent input st1 of
           Inl e \<Rightarrow> (Inl e, cs)
         | Inr (content, isLong, st2) \<Rightarrow>
             let st3 = commentLine input isLong st2;
                 content' = (if \<not> isLong \<and> cs \<noteq> None
                             then slice input commentStart (index st3) else content)
             in (Inr st3, pushComment input content' st3 cs))"

lemma commentContent_mono:
  assumes "commentContent input st = Inr (content, isLong, st')"
  shows "index st \<le> index st'"
proof (cases "charAt input (index st) = [91]")
  case True
  with assms obtain x where "readLongString input True st = Inr (x, st')"
    by (auto simp: commentContent_def Let_def split: sum.splits option.splits)
  from readLongString_progress [OF this] show ?thesis by simp
next
  case False
  with assms show ?thesis by (simp add: commentContent_def Let_def)
qed

lemma commentLine_mono: "index st \<le> index (commentLine input isLong st)"
  using scan_while_mono [of "index st" "\<lambda>c. \<not> isLineTerminator c" input]
  by (simp add: commentLine_def)

lemma scanComment_progress:
  assumes "scanComment input st cs = (Inr st', cs')"
  shows "index st + 2 \<le> index st'"
proof -
  let ?st1 = "st\<lparr>tokenStart := index st, index := index st + 2\<rparr>"
  from assms obtain content isLong st2
    where c: "commentContent input ?st1 = Inr (content, isLong, st2)"
      and st': "st' = commentLine input isLong st2"
    by (auto simp: scanComment_def Let_def split: sum.splits)
  from commentContent_mono [OF c] commentLine_mono [of st2 input isLong] st'
  show ?thesis by simp
qed

subsection \<open>The dispatcher\<close>

text \<open>The loop at the head of \<open>lex\<close> that skips the comments and the white space after
  each.\<close>

function skipComments ::
  "jsstring \<Rightarrow> cursor \<Rightarrow> comment list option \<Rightarrow> (lex_error + cursor) \<times> comment list option"
  where
  "skipComments input st cs =
     (if charCodeAt input (index st) = Some 45 \<and> charCodeAt input (index st + 1) = Some 45
      then case scanComment input st cs of
             (Inl e, cs') \<Rightarrow> (Inl e, cs')
           | (Inr st', cs') \<Rightarrow> skipComments input (skipWhiteSpace input st') cs'
      else (Inr st, cs))"
  by pat_completeness auto
termination
proof (relation "measure (\<lambda>(input, st, cs). length input - index st)", goal_cases)
  case 1
  show ?case by simp
next
  case (2 input st cs res cs' st')
  then have "scanComment input st cs = (Inr st', cs')" by simp
  from scanComment_progress [OF this] skipWhiteSpace_mono [of st' input]
  have "index st < index (skipWhiteSpace input st')" by simp
  moreover from 2 have "index st < length input"
    by (cases "index st < length input") (simp_all add: charCodeAt_def)
  ultimately show ?case by simp
qed

declare skipComments.simps [simp del]

definition unexpected :: "cursor \<Rightarrow> lex_error + token option \<times> cursor" where
  "unexpected st =
     Inl (tokenError unexpectedSymbol (line st) (lineStart st) (index st, index st + 1) None)"

definition emit :: "token \<times> cursor \<Rightarrow> lex_error + token option \<times> cursor" where
  "emit r = Inr (Some (fst r), snd r)"

definition emitOrRaise ::
  "lex_error + token \<times> cursor \<Rightarrow> lex_error + token option \<times> cursor" where
  "emitOrRaise r = (case r of Inl e \<Rightarrow> Inl e | Inr ts \<Rightarrow> emit ts)"

text \<open>The body of \<open>lex\<close> after the skipping: the end-of-input test, the start of the
  token, and the switch on the character code. The cases of the switch are tried in the
  order of the source.\<close>

definition lexToken ::
  "jsstring \<Rightarrow> tokenizerOptions \<Rightarrow> features \<Rightarrow> cursor \<Rightarrow> lex_error + token option \<times> cursor"
  where
  "lexToken input opts f st0 =
     (if length input \<le> index st0 then Inr (None, st0)
      else
        let charCode = charCodeAt input (index st0);
            next = charCodeAt input (index st0 + 1);
            st = st0\<lparr>tokenStart := index st0\<rparr>
        in if isIdentifierStart opts charCode then
             emit (scanIdentifierOrKeyword input opts f st)
           else if charCode = Some 39 \<or> charCode = Some 34 then
             emitOrRaise (scanStringLiteral input f st)
           else if isDecDigit charCode then emitOrRaise (scanNumericLiteral input st)
           else if charCode = Some 46 then
             if isDecDigit next then emitOrRaise (scanNumericLiteral input st)
             else if next = Some 46 then
               if charCodeAt input (index st + 2) = Some 46 then emit (scanVarargLiteral st)
               else emit (scanPunctuator (str ''..'') st)
             else emit (scanPunctuator (str ''.'') st)
           else if charCode = Some 61 then
             if next = Some 61 then emit (scanPunctuator (str ''=='') st)
             else if next = Some 62 then emit (scanPunctuator (str ''=>'') st)
             else emit (scanPunctuator (str ''='') st)
           else if charCode = Some 62 then
             if bitwiseOperators f \<and> next = Some 62 then emit (scanPunctuator (str ''>>'') st)
             else if next = Some 61 then emit (scanPunctuator (str ''>='') st)
             else emit (scanPunctuator (str ''>'') st)
           else if charCode = Some 60 then
             if bitwiseOperators f \<and> next = Some 60 then emit (scanPunctuator (str ''<<'') st)
             else if next = Some 61 then emit (scanPunctuator (str ''<='') st)
             else emit (scanPunctuator (str ''<'') st)
           else if charCode = Some 126 then
             if next = Some 61 then emit (scanPunctuator (str ''~='') st)
             else if \<not> bitwiseOperators f then unexpected st
             else emit (scanPunctuator (str ''~'') st)
           else if charCode = Some 58 then
             if labels f \<and> next = Some 58 then emit (scanPunctuator (str ''::'') st)
             else emit (scanPunctuator (str '':'') st)
           else if charCode = Some 91 then
             if next = Some 91 \<or> next = Some 61
             then emitOrRaise (scanLongStringLiteral input st)
             else emit (scanPunctuator (str ''['') st)
           else if charCode = Some 47 then
             if integerDivision f \<and> next = Some 47 then emit (scanPunctuator (str ''//'') st)
             else emit (scanPunctuator (str ''/'') st)
           else if charCode = Some 38 then
             if \<not> bitwiseOperators f then unexpected st
             else emit (scanPunctuator (charAt input (index st)) st)
           else if charCode \<in> Some ` {42, 94, 37, 44, 123, 125, 93, 40, 41, 59, 35, 45, 43, 124}
           then emit (scanPunctuator (charAt input (index st)) st)
           else unexpected st)"

definition lex ::
  "jsstring \<Rightarrow> tokenizerOptions \<Rightarrow> features \<Rightarrow> cursor \<Rightarrow> comment list option
   \<Rightarrow> (lex_error + token option \<times> cursor) \<times> comment list option" where
  "lex input opts f st cs =
     (case skipComments input (skipWhiteSpace input st) cs of
        (Inl e, cs') \<Rightarrow> (Inl e, cs')
      | (Inr st', cs') \<Rightarrow> (lexToken input opts f st', cs'))"

subsection \<open>The generator\<close>

text \<open>\<open>while (!consumeEOL()) index++\<close>, the loop that skips a shebang line. It has no
  test for the end of the input, so it is a partial function: \<open>None\<close> is the run that
  never ends.\<close>

partial_function (option) skipShebang :: "jsstring \<Rightarrow> cursor \<Rightarrow> cursor option" where
  "skipShebang input st =
     (let r = consumeEOL input st
      in if fst r then Some (snd r)
         else skipShebang input ((snd r)\<lparr>index := index (snd r) + 1\<rparr>))"

text \<open>\<open>while (true) { token = lex(); if (token != null) yield token; else return; }\<close>:
  the tokens yielded so far are collected, latest first. The result is the list of the
  tokens yielded, the error raised if the run ended with one, and the comment array.\<close>

type_synonym token_stream = "token list \<times> lex_error option \<times> comment list option"

partial_function (option) tokenLoop ::
  "jsstring \<Rightarrow> tokenizerOptions \<Rightarrow> features \<Rightarrow> token list \<Rightarrow> cursor \<Rightarrow> comment list option
   \<Rightarrow> token_stream option" where
  "tokenLoop input opts f acc st cs =
     (case lex input opts f st cs of
        (Inl e, cs') \<Rightarrow> Some (rev acc, Some e, cs')
      | (Inr (None, st'), cs') \<Rightarrow> Some (rev acc, None, cs')
      | (Inr (Some token, st'), cs') \<Rightarrow> tokenLoop input opts f (token # acc) st' cs')"

definition initialCursor :: cursor where
  "initialCursor = \<lparr>index = 0, line = 1, lineStart = 0, tokenStart = 0\<rparr>"

definition tokenize :: "jsstring \<Rightarrow> tokenizerOptions \<Rightarrow> token_stream option" where
  "tokenize input opts =
     (let f = resolveFeatures opts
      in if ignoreShebang opts \<and> take 2 input = str ''#!'' then
           case skipShebang input initialCursor of
             None \<Rightarrow> None
           | Some st \<Rightarrow> tokenLoop input opts f [] st (comments opts)
         else tokenLoop input opts f [] initialCursor (comments opts))"

section \<open>The specification's side\<close>

text \<open>The definitions of this section are not taken from the source. They write down, in
  the specification's words, what the properties below compare the tokenizer with.\<close>

subsection \<open>Digits\<close>

definition hexDigitValue :: "nat \<Rightarrow> nat" where
  "hexDigitValue c =
     (if 48 \<le> c \<and> c \<le> 57 then c - 48 else if 97 \<le> c \<and> c \<le> 102 then c - 87 else c - 55)"

subsection \<open>Punctuators\<close>

text \<open>The table of the gated punctuators as the specification words it: the punctuator
  that begins with the character \<open>c\<close> when \<open>next\<close> follows, or \<open>None\<close> where the
  character is no punctuator.\<close>

definition gatedPunctuator :: "features \<Rightarrow> nat \<Rightarrow> nat option \<Rightarrow> jsstring option" where
  "gatedPunctuator f c next =
     (if c = 62 then
        Some (if bitwiseOperators f \<and> next = Some 62 then str ''>>''
              else if next = Some 61 then str ''>='' else str ''>'')
      else if c = 60 then
        Some (if bitwiseOperators f \<and> next = Some 60 then str ''<<''
              else if next = Some 61 then str ''<='' else str ''<'')
      else if c = 47 then
        Some (if integerDivision f \<and> next = Some 47 then str ''//'' else str ''/'')
      else if c = 58 then
        Some (if labels f \<and> next = Some 58 then str ''::'' else str '':'')
      else if c = 61 then
        Some (if next = Some 61 then str ''==''
              else if next = Some 62 then str ''=>'' else str ''='')
      else if c = 126 then
        (if next = Some 61 then Some (str ''~='')
         else if bitwiseOperators f then Some (str ''~'') else None)
      else if c = 38 then (if bitwiseOperators f then Some (str ''&'') else None)
      else None)"

subsection \<open>Escapes\<close>

text \<open>The escape decoder as the specification words it, for a character after the
  backslash that is none of the fixed escapes: one ordered chain of guarded checks,
  \<open>z\<close>, then \<open>x\<close>, then \<open>u\<close>, then the strict check, then the literal character.\<close>

definition fixedEscape :: "jsstring \<Rightarrow> bool" where
  "fixedEscape c =
     (c \<in> {str ''a'', str ''n'', str ''r'', str ''t'', str ''v'', str ''b'', str ''f'',
            [13], [10]}
      \<or> (\<exists>d. c = [d] \<and> 48 \<le> d \<and> d \<le> 57))"

definition escapeChain ::
  "jsstring \<Rightarrow> features \<Rightarrow> cursor \<Rightarrow> lex_error + jsstring \<times> cursor" where
  "escapeChain input f st =
     (let c = charAt input (index st);
          i = index st
      in if c = str ''z'' \<and> skipWhitespaceEscape f then
           Inr ([], skipWhiteSpace input (st\<lparr>index := i + 1\<rparr>))
         else if (c = str ''z'' \<or> c = str ''x'') \<and> hexEscapes f then
           if isHexDigit (charCodeAt input (i + 1)) \<and> isHexDigit (charCodeAt input (i + 2))
           then Inr ([16 * hexDigitValue (input ! (i + 1)) + hexDigitValue (input ! (i + 2))],
                     st\<lparr>index := i + 3\<rparr>)
           else if isHexDigit (charCodeAt input (i + 1))
           then Inl (tokenError hexDigitExpected (line st) (lineStart st) (i + 2, i + 3) None)
           else Inl (tokenError hexDigitExpected (line st) (lineStart st) (i + 1, i + 2) None)
         else if (c = str ''z'' \<or> c = str ''x'' \<or> c = str ''u'') \<and> unicodeEscapes f then
           readUnicodeEscapeSequence input st
         else if c \<notin> {[92], [34], [39]} \<and> strictEscapes f then
           Inl (tokenError invalidEscape (line st) (lineStart st) (i, i + 1) None)
         else Inr (c, st\<lparr>index := i + 1\<rparr>))"

subsection \<open>Long brackets\<close>

text \<open>Where the body of a long bracket begins that opens at \<open>i\<close> with \<open>level\<close> equals
  signs: after the second bracket, and after the line terminator (a pair counting as
  one) that may follow it at once.\<close>

definition longBodyStart :: "jsstring \<Rightarrow> nat \<Rightarrow> nat \<Rightarrow> nat" where
  "longBodyStart input i level =
     (let j = i + level + 2
      in if isLineTerminator (charCodeAt input j) then j + eol_width input j else j)"

subsection \<open>Ranges\<close>

text \<open>What it is for the range of a token to index the text that spells it: the range is
  not empty and lies within the input, and the text it slices is the punctuator itself,
  the three dots, the identifier or keyword before the encoding fixup, the word of the
  boolean or nil literal, or, for a number, just what the numeric scanner consumes when
  started at the beginning of the range.\<close>

definition identifierText :: "tokenizerOptions \<Rightarrow> jsstring \<Rightarrow> bool" where
  "identifierText opts text =
     (text \<noteq> [] \<and> isIdentifierStart opts (Some (hd text))
      \<and> list_all (\<lambda>c. isIdentifierPart opts (Some c)) text)"

definition rangeSpellsToken :: "tokenizerOptions \<Rightarrow> jsstring \<Rightarrow> token \<Rightarrow> bool" where
  "rangeSpellsToken opts input t =
     (let a = fst (tok_range t);
          b = snd (tok_range t);
          text = slice input a b
      in a < b \<and> b \<le> length input \<and>
         (case tok_type t of
            Punctuator \<Rightarrow> tok_value t = VString text
          | VarargLiteral \<Rightarrow> text = str ''...''
          | Keyword \<Rightarrow>
              tok_value t = VString (fixupHighCharacters text) \<and> identifierText opts text
          | Identifier \<Rightarrow>
              tok_value t = VString (fixupHighCharacters text) \<and> identifierText opts text
          | BooleanLiteral \<Rightarrow>
              identifierText opts text
              \<and> (tok_value t = VBool True \<and> fixupHighCharacters text = str ''true''
                 \<or> tok_value t = VBool False \<and> fixupHighCharacters text = str ''false'')
          | NilLiteral \<Rightarrow>
              identifierText opts text \<and> tok_value t = VNull
              \<and> fixupHighCharacters text = str ''nil''
          | NumericLiteral \<Rightarrow>
              (\<exists>st st'. index st = a \<and> tokenStart st = a
                        \<and> scanNumericLiteral input st = Inr (t, st') \<and> index st' = b)
          | StringLiteral \<Rightarrow> True))"

text \<open>One pull of the dispatcher from \<open>st\<close> to \<open>st'\<close>: the cursor has moved on,
  and a token that is no string has the range from the old cursor to the new one.\<close>

definition tokenOK ::
  "tokenizerOptions \<Rightarrow> jsstring \<Rightarrow> cursor \<Rightarrow> token \<Rightarrow> cursor \<Rightarrow> bool" where
  "tokenOK opts input st t st' =
     (index st < index st'
      \<and> (tok_type t \<noteq> StringLiteral \<longrightarrow>
           tok_range t = (index st, index st') \<and> tokenStart st' = index st
           \<and> rangeSpellsToken opts input t))"

subsection \<open>Hexadecimal literals\<close>















section \<open>Properties\<close>

subsection \<open>Running the tokenizer on a given input\<close>

lemma levelMatches_numeral:
  "levelMatches input i (numeral k) =
     (levelMatches input i (pred_numeral k) \<and> charAt input (i + pred_numeral k) = [61])"
  by (simp add: numeral_eq_Suc)

lemmas tokenizer_eval =
  tokenize_def resolveFeatures_def defaultOptions_def noFeatures_def initialCursor_def
  str_def lex_def lexToken_def skipWhiteSpace.simps skipComments.simps charCodeAt_def
  charAt_def isWhiteSpace_def isLineTerminator_def isDecDigit_def isHexDigit_def
  isIdentifierStart_def isIdentifierPart_def consumeEOL_def scanStringLiteral_def
  scanStringLoop.simps emit_def emitOrRaise_def unexpected_def tokenError_def slice_def
  scan_while.simps Let_def scanNumericLiteral_def readHexLiteral_def readBinaryExponent_def
  readDecLiteral_def
  is_one_of_def parseInt_def digit_of_def num_of_nat_def num_add_def num_mul_def
  num_div_def math_pow_def pow_int_def readEscapeSequence_def escapeZ_def escapeX_def
  escapeU_def escapeDefault_def escapeLiteral_def readUnicodeEscapeSequence_def
  unicodeDigits.simps encodeUTF8_def fromCharCode_def scanDecimalEscape.simps
  scanPunctuator_def scanVarargLiteral_def scanIdentifierOrKeyword_def isKeyword_def
  keywords_of_def baseKeywords_def readLongString_def longStringLoop.simps closesAt_def
  skipEOLs.simps scanLongStringLiteral_def scanComment_def commentContent_def
  commentLine_def pushComment_def nullthrows_def levelMatches_numeral tokenLoop.simps

subsection \<open>The shebang loop\<close>

lemma skipShebang_Some_has_eol:
  assumes "skipShebang input st = Some st'"
  shows "\<exists>i\<ge>index st. isLineTerminator (charCodeAt input i)"
proof (rule skipShebang.raw_induct
         [where P = "\<lambda>input st y. \<exists>i\<ge>index st. isLineTerminator (charCodeAt input i)",
          OF _ assms], goal_cases)
  case (1 rec input st y)
  show ?case
  proof (cases "isLineTerminator (charCodeAt input (index st))")
    case True
    then show ?thesis by auto
  next
    case False
    with 1(2) have "rec input (st\<lparr>index := index st + 1\<rparr>) = Some y"
      by (simp add: consumeEOL_False Let_def)
    from 1(1) [OF this] obtain i
      where "index st + 1 \<le> i" "isLineTerminator (charCodeAt input i)"
      by auto
    then show ?thesis by (intro exI [of _ i]) simp
  qed
qed

lemma skipShebang_diverges:
  assumes "\<forall>c\<in>set input. c \<noteq> 10 \<and> c \<noteq> 13"
  shows "skipShebang input st = None"
proof (cases "skipShebang input st")
  case None
  then show ?thesis .
next
  case (Some st')
  from skipShebang_Some_has_eol [OF Some] obtain i
    where "isLineTerminator (charCodeAt input i)"
    by auto
  with assms show ?thesis
    by (cases "i < length input") (auto simp: isLineTerminator_def charCodeAt_def)
qed

text \<open>
  Claim C9 says that pulling the generator always ends, also on an input that begins
  with \<open>#!\<close> under the default \<open>ignoreShebang\<close>. The code does not do that: when the
  input begins with \<open>#!\<close> and holds no line feed and no carriage return, the
  shebang loop runs past the end of the input and never returns, so the first pull
  yields neither a token nor an error.
\<close>

theorem C9_shebang_without_newline_never_returns:
  assumes "ignoreShebang opts"
    and "take 2 input = str ''#!''"
    and "\<forall>c\<in>set input. c \<noteq> 10 \<and> c \<noteq> 13"
  shows "tokenize input opts = None"
  using assms by (simp add: tokenize_def skipShebang_diverges)

theorem C9_shebang_without_newline_witness:
  "tokenize (str ''#!/usr/bin/lua'') defaultOptions = None"
  using C9_shebang_without_newline_never_returns
          [of defaultOptions "str ''#!/usr/bin/lua''"]
  by (simp add: defaultOptions_def str_def)

subsection \<open>Short strings and escapes on given inputs\<close>

text \<open>
  Claim C3 says that an input whose last character is an opening quote raises
  unfinishedString. The code does not do that: the loop of \<open>scanStringLiteral\<close> is
  not entered when the opening quote is the last character, and a StringLiteral token
  with the empty value is yielded.
\<close>

theorem C3_lone_opening_quote_yields_token:
  "tokenize [34] defaultOptions =
     Some ([\<lparr>tok_type = StringLiteral, tok_value = VString [], tok_line = 1,
             tok_lineStart = 0, tok_range = (0, 1), tok_lastLine = Some 1,
             tok_lastLineStart = Some 0\<rparr>],
           None, None)"
  by (simp add: tokenizer_eval)

text \<open>
  Claim C5 says that the digits of a codepoint escape are read as a hexadecimal number
  and encoded, leading zeros not counting. The code does not do that when all the
  digits are zeros: \<open>"\u{0}"\<close> under Lua 5.3 raises tooLargeCodepoint, since the
  digits left after the zeros are the empty string, which \<open>parseInt\<close> reads as NaN.
\<close>

theorem C5_zero_codepoint_raises:
  "tokenize ([34, 92] @ str ''u{0}'' @ [34]) (defaultOptions\<lparr>luaVersion := Lua53\<rparr>) =
     Some ([],
           Some \<lparr>err_kind = tooLargeCodepoint, err_line = 1, err_lineStart = 0,
                 err_range = (4, 5), err_expected = None\<rparr>,
           None)"
  by (simp add: tokenizer_eval)

subsection \<open>The keyword set\<close>

text \<open>
  Claim C7: the keyword set of a session is the fixed base set of Lua keywords, with
  \<open>goto\<close> exactly when labels are enabled and contextual goto is not, \<open>declare\<close>
  exactly when the typeCheck feature is set and \<open>const\<close> exactly when the const
  feature is set; so the word \<open>goto\<close> is a keyword under 5.2 and 5.3 only, and it is
  tokenized as an Identifier under 5.1 and JIT and as a Keyword under 5.2 and 5.3.
\<close>

theorem C7_keyword_set:
  "set (keywords_of (resolveFeatures opts)) =
     set (map str [''do'', ''if'', ''in'', ''or'', ''and'', ''end'', ''for'', ''not'',
                   ''else'', ''then'', ''break'', ''local'', ''until'', ''while'',
                   ''elseif'', ''repeat'', ''return'', ''function''])
     \<union> (if labels (resolveFeatures opts) \<and> \<not> contextualGoto (resolveFeatures opts)
        then {str ''goto''} else {})
     \<union> (if opt_typeCheck opts then {str ''declare''} else {})
     \<union> (if opt_const_feature opts then {str ''const''} else {})
   \<and> (isKeyword (resolveFeatures opts) (str ''goto'')
        = (luaVersion opts = Lua52 \<or> luaVersion opts = Lua53))
   \<and> tokenize (str ''goto'') (defaultOptions\<lparr>luaVersion := v\<rparr>) =
       Some ([\<lparr>tok_type = (if v = Lua52 \<or> v = Lua53 then Keyword else Identifier),
               tok_value = VString (str ''goto''), tok_line = 1, tok_lineStart = 0,
               tok_range = (0, 4), tok_lastLine = None, tok_lastLineStart = None\<rparr>],
             None, None)"
proof (intro conjI)
  show "set (keywords_of (resolveFeatures opts)) =
     set (map str [''do'', ''if'', ''in'', ''or'', ''and'', ''end'', ''for'', ''not'',
                   ''else'', ''then'', ''break'', ''local'', ''until'', ''while'',
                   ''elseif'', ''repeat'', ''return'', ''function''])
     \<union> (if labels (resolveFeatures opts) \<and> \<not> contextualGoto (resolveFeatures opts)
        then {str ''goto''} else {})
     \<union> (if opt_typeCheck opts then {str ''declare''} else {})
     \<union> (if opt_const_feature opts then {str ''const''} else {})"
    by (simp add: keywords_of_def baseKeywords_def resolveFeatures_def) blast
  show "isKeyword (resolveFeatures opts) (str ''goto'')
        = (luaVersion opts = Lua52 \<or> luaVersion opts = Lua53)"
    by (cases "luaVersion opts")
       (simp_all add: isKeyword_def keywords_of_def baseKeywords_def resolveFeatures_def
          noFeatures_def str_def)
  show "tokenize (str ''goto'') (defaultOptions\<lparr>luaVersion := v\<rparr>) =
       Some ([\<lparr>tok_type = (if v = Lua52 \<or> v = Lua53 then Keyword else Identifier),
               tok_value = VString (str ''goto''), tok_line = 1, tok_lineStart = 0,
               tok_range = (0, 4), tok_lastLine = None, tok_lastLineStart = None\<rparr>],
             None, None)"
    by (cases v) (simp_all add: tokenizer_eval)
qed

theorem C7_keyword_set_witness:
  "str ''goto'' \<notin> set (keywords_of (resolveFeatures defaultOptions))
   \<and> str ''goto'' \<in> set (keywords_of (resolveFeatures (defaultOptions\<lparr>luaVersion := Lua53\<rparr>)))
   \<and> str ''goto'' \<notin> set (keywords_of (resolveFeatures (defaultOptions\<lparr>luaVersion := LuaJIT\<rparr>)))
   \<and> str ''declare'' \<in> set (keywords_of (resolveFeatures (defaultOptions\<lparr>opt_typeCheck := True\<rparr>)))
   \<and> str ''const'' \<in> set (keywords_of (resolveFeatures (defaultOptions\<lparr>opt_const_feature := True\<rparr>)))"
  using C7_keyword_set [of defaultOptions Lua51]
    C7_keyword_set [of "defaultOptions\<lparr>luaVersion := Lua53\<rparr>" Lua51]
    C7_keyword_set [of "defaultOptions\<lparr>luaVersion := LuaJIT\<rparr>" Lua51]
    C7_keyword_set [of "defaultOptions\<lparr>opt_typeCheck := True\<rparr>" Lua51]
    C7_keyword_set [of "defaultOptions\<lparr>opt_const_feature := True\<rparr>" Lua51]
  by (simp add: defaultOptions_def resolveFeatures_def noFeatures_def str_def)

subsection \<open>Feature-gated punctuators\<close>

lemma skipWhiteSpace_none:
  assumes "\<not> isWhiteSpace (charCodeAt input (index st))"
    and "\<not> isLineTerminator (charCodeAt input (index st))"
  shows "skipWhiteSpace input st = st"
  using assms by (simp add: skipWhiteSpace.simps [of input st] consumeEOL_False)

lemma skipComments_none:
  "charCodeAt input (index st) \<noteq> Some 45 \<Longrightarrow> skipComments input st cs = (Inr st, cs)"
  by (simp add: skipComments.simps [of input st cs])

lemma lex_at_token_start:
  assumes "\<not> isWhiteSpace (charCodeAt input (index st))"
    and "\<not> isLineTerminator (charCodeAt input (index st))"
    and "charCodeAt input (index st) \<noteq> Some 45"
  shows "lex input opts f st cs = (lexToken input opts f st, cs)"
  using assms by (simp add: lex_def skipWhiteSpace_none skipComments_none)

text \<open>
  Claim C8: for a token that begins with one of \<open>> < / : = ~ &\<close>, the dispatcher
  decides from that character, the single code unit after it and the features alone:
  \<open>>>\<close> and \<open><<\<close> need bitwiseOperators, \<open>//\<close> needs integerDivision, \<open>::\<close>
  needs labels; \<open>== => >= <= ~=\<close> need nothing; a \<open>~\<close> not followed by \<open>=\<close>, and
  \<open>&\<close>, are punctuators under bitwiseOperators and raise unexpectedSymbol otherwise.
\<close>

theorem C8_gated_punctuators:
  assumes "index st < length input"
    and "input ! index st = c"
    and "c \<in> {62, 60, 47, 58, 61, 126, 38}"
  shows "lex input opts f st cs =
           (case gatedPunctuator f c (charCodeAt input (index st + 1)) of
              Some v \<Rightarrow>
                Inr (Some \<lparr>tok_type = Punctuator, tok_value = VString v,
                           tok_line = line st, tok_lineStart = lineStart st,
                           tok_range = (index st, index st + length v),
                           tok_lastLine = None, tok_lastLineStart = None\<rparr>,
                     st\<lparr>tokenStart := index st, index := index st + length v\<rparr>)
            | None \<Rightarrow>
                Inl (tokenError unexpectedSymbol (line st) (lineStart st)
                       (index st, index st + 1) None),
            cs)"
proof -
  from assms have cc: "charCodeAt input (index st) = Some c"
    by (simp add: charCodeAt_def)
  from assms(3) cc have "lex input opts f st cs = (lexToken input opts f st, cs)"
    by (intro lex_at_token_start) (auto simp: isWhiteSpace_def isLineTerminator_def)
  moreover have "lexToken input opts f st =
           (case gatedPunctuator f c (charCodeAt input (index st + 1)) of
              Some v \<Rightarrow>
                Inr (Some \<lparr>tok_type = Punctuator, tok_value = VString v,
                           tok_line = line st, tok_lineStart = lineStart st,
                           tok_range = (index st, index st + length v),
                           tok_lastLine = None, tok_lastLineStart = None\<rparr>,
                     st\<lparr>tokenStart := index st, index := index st + length v\<rparr>)
            | None \<Rightarrow>
                Inl (tokenError unexpectedSymbol (line st) (lineStart st)
                       (index st, index st + 1) None))"
  proof -
    note defs = lexToken_def Let_def gatedPunctuator_def isIdentifierStart_def
      isDecDigit_def emit_def scanPunctuator_def unexpected_def str_def charAt_def
    from assms(3) consider "c = 62" | "c = 60" | "c = 47" | "c = 58" | "c = 61"
      | "c = 126" | "c = 38"
      by auto
    then show ?thesis
    proof cases
      case 1
      with assms(1,2) cc show ?thesis by (simp add: defs)
    next
      case 2
      with assms(1,2) cc show ?thesis by (simp add: defs)
    next
      case 3
      with assms(1,2) cc show ?thesis by (simp add: defs)
    next
      case 4
      with assms(1,2) cc show ?thesis by (simp add: defs)
    next
      case 5
      with assms(1,2) cc show ?thesis by (simp add: defs)
    next
      case 6
      with assms(1,2) cc show ?thesis by (simp add: defs)
    next
      case 7
      with assms(1,2) cc show ?thesis by (simp add: defs)
    qed
  qed
  ultimately show ?thesis by simp
qed

theorem C8_gated_punctuators_witness:
  "lex (str ''>>'') defaultOptions (versionFeatures Lua53) initialCursor None =
     (Inr (Some \<lparr>tok_type = Punctuator, tok_value = VString (str ''>>''), tok_line = 1,
                 tok_lineStart = 0, tok_range = (0, 2), tok_lastLine = None,
                 tok_lastLineStart = None\<rparr>,
           \<lparr>index = 2, line = 1, lineStart = 0, tokenStart = 0\<rparr>),
      None)
   \<and> lex (str ''>>'') defaultOptions (versionFeatures Lua51) initialCursor None =
     (Inr (Some \<lparr>tok_type = Punctuator, tok_value = VString (str ''>''), tok_line = 1,
                 tok_lineStart = 0, tok_range = (0, 1), tok_lastLine = None,
                 tok_lastLineStart = None\<rparr>,
           \<lparr>index = 1, line = 1, lineStart = 0, tokenStart = 0\<rparr>),
      None)
   \<and> lex (str ''~'') defaultOptions (versionFeatures Lua52) initialCursor None =
     (Inl (tokenError unexpectedSymbol 1 0 (0, 1) None), None)"
  using C8_gated_punctuators [of initialCursor "str ''>>''" 62 defaultOptions
          "versionFeatures Lua53" None]
    C8_gated_punctuators [of initialCursor "str ''>>''" 62 defaultOptions
          "versionFeatures Lua51" None]
    C8_gated_punctuators [of initialCursor "str ''~''" 126 defaultOptions
          "versionFeatures Lua52" None]
  by (simp add: initialCursor_def str_def gatedPunctuator_def charCodeAt_def noFeatures_def)

subsection \<open>The precedence of the escape decoder\<close>

lemma digit_of_hex: "isHexDigit (Some c) \<Longrightarrow> digit_of 16 c = Some (hexDigitValue c)"
  unfolding isHexDigit_def digit_of_def hexDigitValue_def Let_def
  by (simp split: if_splits) linarith

lemma hex_pair_value:
  assumes "isHexDigit (charCodeAt input (i + 1))" and "isHexDigit (charCodeAt input (i + 2))"
  shows "fromCharCode (parseInt (slice input (i + 1) (i + 3)) 16) =
           [16 * hexDigitValue (input ! (i + 1)) + hexDigitValue (input ! (i + 2))]"
proof -
  from isHexDigit_in_range [OF assms(2)] have len: "i + 2 < length input" .
  then have sl: "slice input (i + 1) (i + 3) = [input ! (i + 1), input ! (i + 2)]"
    by (simp add: slice_def take_Suc_conv_app_nth list_eq_iff_nth_eq nth_append
             less_Suc_eq numeral_3_eq_3 numeral_2_eq_2)
  from assms len have h1: "isHexDigit (Some (input ! (i + 1)))"
    and h2: "isHexDigit (Some (input ! (i + 2)))"
    by (simp_all add: charCodeAt_def)
  have v1: "hexDigitValue (input ! (i + 1)) < 16" and v2: "hexDigitValue (input ! (i + 2)) < 16"
    using h1 h2 by (auto simp: isHexDigit_def hexDigitValue_def)
  show ?thesis
    unfolding sl using v1 v2 digit_of_hex [OF h1] digit_of_hex [OF h2]
    by (simp add: parseInt_def fromCharCode_def)
qed

lemma readEscapeSequence_chain:
  assumes "\<not> fixedEscape (charAt input (index st))"
  shows "readEscapeSequence input f st = escapeChain input f st"
proof -
  let ?c = "charAt input (index st)"
  from assms have nf: "?c \<noteq> str ''a''" "?c \<noteq> str ''n''" "?c \<noteq> str ''r''" "?c \<noteq> str ''t''"
    "?c \<noteq> str ''v''" "?c \<noteq> str ''b''" "?c \<noteq> str ''f''" "?c \<noteq> [13]" "?c \<noteq> [10]"
    by (auto simp: fixedEscape_def)
  from assms have nd: "\<not> isDecDigit (charCodeAt input (index st))"
    by (auto simp: fixedEscape_def isDecDigit_def charCodeAt_def charAt_def)
  have base: "readEscapeSequence input f st =
      (if ?c = str ''z'' then escapeZ input f st
       else if ?c = str ''x'' then escapeX input f st
       else if ?c = str ''u'' then escapeU input f st
       else if ?c = [92] \<or> ?c = [34] \<or> ?c = [39] then escapeLiteral input st
       else escapeDefault input f st)"
    using nf nd by (simp add: readEscapeSequence_def Let_def)
  have x: "escapeX input f st =
      (if hexEscapes f then
           if isHexDigit (charCodeAt input (index st + 1)) \<and> isHexDigit (charCodeAt input (index st + 2))
           then Inr ([16 * hexDigitValue (input ! (index st + 1)) + hexDigitValue (input ! (index st + 2))],
                     st\<lparr>index := index st + 3\<rparr>)
           else if isHexDigit (charCodeAt input (index st + 1))
           then Inl (tokenError hexDigitExpected (line st) (lineStart st) (index st + 2, index st + 3) None)
           else Inl (tokenError hexDigitExpected (line st) (lineStart st) (index st + 1, index st + 2) None)
       else escapeU input f st)"
    using hex_pair_value [of input "index st"]
    by (simp add: escapeX_def Let_def numeral_3_eq_3)
  consider "?c = str ''z''" | "?c = str ''x''" | "?c = str ''u''"
    | "?c = [92] \<or> ?c = [34] \<or> ?c = [39]"
    | "?c \<noteq> str ''z''" "?c \<noteq> str ''x''" "?c \<noteq> str ''u''" "?c \<noteq> [92]" "?c \<noteq> [34]" "?c \<noteq> [39]"
    by blast
  then show ?thesis
  proof cases
    case 1
    then show ?thesis
      by (simp add: base escapeChain_def Let_def escapeZ_def x escapeU_def escapeDefault_def
            escapeLiteral_def str_def)
  next
    case 2
    then show ?thesis
      by (simp add: base escapeChain_def Let_def x escapeU_def escapeDefault_def
            escapeLiteral_def str_def)
  next
    case 3
    then show ?thesis
      by (simp add: base escapeChain_def Let_def escapeU_def escapeDefault_def
            escapeLiteral_def str_def)
  next
    case 4
    then show ?thesis
      by (auto simp: base escapeChain_def Let_def escapeLiteral_def str_def)
  next
    case 5
    then show ?thesis
      by (simp add: base escapeChain_def Let_def escapeDefault_def escapeLiteral_def)
  qed
qed

text \<open>
  Claim C2: on the character after a backslash that is not one of the fixed escapes
  (\<open>a n r t v b f\<close>, a line terminator, a decimal digit), the escape decoder follows
  the precedence z, x, u, strict check, literal: \<open>\z\<close> skips white space and emits
  nothing when skipWhitespaceEscape is enabled, \<open>\x\<close> needs two hex digits and emits
  that byte when hexEscapes is enabled, \<open>\u\<close> goes to the codepoint escape when
  unicodeEscapes is enabled, each falling through otherwise; what is left raises
  invalidEscape when strictEscapes is enabled, and otherwise, and always for the
  backslash and the quotes, the character is emitted unchanged. So \<open>"\x41"\<close> is the
  three characters \<open>x41\<close> under Lua 5.1 and \<open>A\<close> under the other versions.
\<close>

theorem C2_escape_precedence:
  "(\<not> fixedEscape (charAt input (index st)) \<longrightarrow>
      readEscapeSequence input f st = escapeChain input f st)
   \<and> tokenize ([34, 92] @ str ''x41'' @ [34]) defaultOptions =
       Some ([\<lparr>tok_type = StringLiteral, tok_value = VString (str ''x41''), tok_line = 1,
               tok_lineStart = 0, tok_range = (0, 6), tok_lastLine = Some 1,
               tok_lastLineStart = Some 0\<rparr>],
             None, None)
   \<and> (v \<noteq> Lua51 \<longrightarrow>
        tokenize ([34, 92] @ str ''x41'' @ [34]) (defaultOptions\<lparr>luaVersion := v\<rparr>) =
          Some ([\<lparr>tok_type = StringLiteral, tok_value = VString (str ''A''), tok_line = 1,
                  tok_lineStart = 0, tok_range = (0, 6), tok_lastLine = Some 1,
                  tok_lastLineStart = Some 0\<rparr>],
                None, None))"
proof (intro conjI impI)
  assume "\<not> fixedEscape (charAt input (index st))"
  then show "readEscapeSequence input f st = escapeChain input f st"
    by (rule readEscapeSequence_chain)
next
  show "tokenize ([34, 92] @ str ''x41'' @ [34]) defaultOptions =
       Some ([\<lparr>tok_type = StringLiteral, tok_value = VString (str ''x41''), tok_line = 1,
               tok_lineStart = 0, tok_range = (0, 6), tok_lastLine = Some 1,
               tok_lastLineStart = Some 0\<rparr>],
             None, None)"
    by (simp add: tokenizer_eval)
next
  assume "v \<noteq> Lua51"
  then show "tokenize ([34, 92] @ str ''x41'' @ [34]) (defaultOptions\<lparr>luaVersion := v\<rparr>) =
          Some ([\<lparr>tok_type = StringLiteral, tok_value = VString (str ''A''), tok_line = 1,
                  tok_lineStart = 0, tok_range = (0, 6), tok_lastLine = Some 1,
                  tok_lastLineStart = Some 0\<rparr>],
                None, None)"
    by (cases v) (simp_all add: tokenizer_eval)
qed

theorem C2_escape_precedence_witness:
  "readEscapeSequence ([34, 92] @ str ''z'') (versionFeatures Lua51)
     \<lparr>index = 2, line = 1, lineStart = 0, tokenStart = 0\<rparr> =
     Inr (str ''z'', \<lparr>index = 3, line = 1, lineStart = 0, tokenStart = 0\<rparr>)
   \<and> readEscapeSequence ([34, 92] @ str ''q'') (versionFeatures Lua52)
     \<lparr>index = 2, line = 1, lineStart = 0, tokenStart = 0\<rparr> =
     Inl (tokenError invalidEscape 1 0 (2, 3) None)
   \<and> tokenize ([34, 92] @ str ''x41'' @ [34]) (defaultOptions\<lparr>luaVersion := Lua53\<rparr>) =
       Some ([\<lparr>tok_type = StringLiteral, tok_value = VString (str ''A''), tok_line = 1,
               tok_lineStart = 0, tok_range = (0, 6), tok_lastLine = Some 1,
               tok_lastLineStart = Some 0\<rparr>],
             None, None)"
  using C2_escape_precedence
          [of "[34, 92] @ str ''z''" "\<lparr>index = 2, line = 1, lineStart = 0, tokenStart = 0\<rparr>"
              "versionFeatures Lua51" Lua53]
    C2_escape_precedence
          [of "[34, 92] @ str ''q''" "\<lparr>index = 2, line = 1, lineStart = 0, tokenStart = 0\<rparr>"
              "versionFeatures Lua52" Lua53]
  by (simp add: fixedEscape_def escapeChain_def charAt_def str_def noFeatures_def)

subsection \<open>Every scanner moves the cursor on\<close>

lemma scan_while_le: "i \<le> length input \<Longrightarrow> scan_while p input i \<le> length input"
proof (induction p input i rule: scan_while.induct)
  case (1 p input i)
  show ?case
  proof (cases "i < length input \<and> p (charCodeAt input i)")
    case True
    with "1.IH" have "scan_while p input (Suc i) \<le> length input" by simp
    with True show ?thesis by (simp add: scan_while.simps [of p input i])
  next
    case False
    with "1.prems" show ?thesis by (auto simp: scan_while.simps [of p input i])
  qed
qed

lemma scan_while_step:
  "i < length input \<Longrightarrow> p (charCodeAt input i) \<Longrightarrow>
   scan_while p input i = scan_while p input (Suc i)"
  by (simp add: scan_while.simps [of p input i])

lemma scan_while_stop:
  "\<not> p (charCodeAt input i) \<Longrightarrow> scan_while p input i = i"
  by (simp add: scan_while.simps [of p input i])

lemma scan_while_all:
  "i \<le> j \<Longrightarrow> j < scan_while p input i \<Longrightarrow> p (charCodeAt input j)"
proof (induction p input i rule: scan_while.induct)
  case (1 p input i)
  show ?case
  proof (cases "i < length input \<and> p (charCodeAt input i)")
    case True
    show ?thesis
    proof (cases "j = i")
      case True
      with \<open>i < length input \<and> p (charCodeAt input i)\<close> show ?thesis by simp
    next
      case False
      with "1.prems" True have "Suc i \<le> j" "j < scan_while p input (Suc i)"
        by (simp_all add: scan_while.simps [of p input i])
      with "1.IH" True show ?thesis by simp
    qed
  next
    case False
    with "1.prems" show ?thesis by (auto simp: scan_while.simps [of p input i])
  qed
qed

lemma scanStringLoop_mono:
  "scanStringLoop input f d bl bls ss s st = Inr (ss', s', st') \<Longrightarrow> index st \<le> index st'"
proof (induction input f d bl bls ss s st rule: scanStringLoop.induct)
  case (1 input f delimiter beginLine beginLineStart stringStart string st)
  note eq = scanStringLoop.simps
              [of input f delimiter beginLine beginLineStart stringStart string st]
  let ?st1 = "st\<lparr>index := index st + 1\<rparr>"
  let ?c = "charCodeAt input (index st)"
  show ?case
  proof (cases "index st < length input")
    case False
    with "1.prems" show ?thesis by (simp add: eq)
  next
    case inr: True
    show ?thesis
    proof (cases "?c = delimiter")
      case True
      with "1.prems" inr show ?thesis by (auto simp: eq Let_def)
    next
      case nd: False
      define r where "r = (if ?c = Some 92 then
                     case readEscapeSequence input f ?st1 of
                       Inl e \<Rightarrow> Inl e
                     | Inr (esc, st2) \<Rightarrow>
                         Inr (index st2,
                              string
                              @ fixupHighCharacters (slice input stringStart (index ?st1 - 1))
                              @ esc,
                              st2)
                   else Inr (stringStart, string, ?st1))"
      have eq': "scanStringLoop input f delimiter beginLine beginLineStart stringStart string st =
         (case r of
               Inl e \<Rightarrow> Inl e
             | Inr (stringStart', string', st3) \<Rightarrow>
                 if length input \<le> index st3 \<or> isLineTerminator ?c then
                   Inl (tokenError unfinishedString beginLine beginLineStart
                          (stringStart' - 1, index st3 - 1) None)
                 else scanStringLoop input f delimiter beginLine beginLineStart
                        stringStart' string' st3)"
        using inr nd unfolding r_def
        by (subst eq) (simp add: Let_def cong: sum.case_cong)
      from "1.prems" eq' obtain a b st3 where r: "r = Inr (a, b, st3)"
        and cont: "\<not> (length input \<le> index st3 \<or> isLineTerminator ?c)"
        and rec: "scanStringLoop input f delimiter beginLine beginLineStart a b st3
                  = Inr (ss', s', st')"
        by (auto split: sum.splits if_splits)
      have "index st < index st3"
      proof (cases "?c = Some 92")
        case True
        with r obtain esc where "readEscapeSequence input f ?st1 = Inr (esc, st3)"
          by (auto simp: r_def split: sum.splits)
        from readEscapeSequence_mono [OF this] show ?thesis by simp
      next
        case False
        with r show ?thesis by (auto simp: r_def)
      qed
      moreover have "index st3 \<le> index st'"
        using "1.IH" [OF inr refl refl nd r [unfolded r_def] refl refl cont rec] .
      ultimately show ?thesis by simp
    qed
  qed
qed

lemma scanStringLiteral_progress:
  assumes "scanStringLiteral input f st = Inr (t, st')"
  shows "index st < index st'"
proof -
  from assms obtain ss s where
    "scanStringLoop input f (charCodeAt input (index st)) (line st) (lineStart st)
       (index st + 1) [] (st\<lparr>index := index st + 1\<rparr>) = Inr (ss, s, st')"
    by (auto simp: scanStringLiteral_def Let_def split: sum.splits)
  from scanStringLoop_mono [OF this] show ?thesis by simp
qed

lemma scanLongStringLiteral_progress:
  assumes "scanLongStringLiteral input st = Inr (t, st')"
  shows "index st < index st'"
proof -
  from assms obtain s where "readLongString input False st = Inr (Some s, st')"
    by (auto simp: scanLongStringLiteral_def Let_def split: sum.splits option.splits)
  from readLongString_progress [OF this] show ?thesis .
qed

lemma scan_while_progress:
  assumes "p (charCodeAt input i)" and "i < length input"
  shows "i < scan_while p input i"
  using scan_while_mono [of "Suc i" p input] scan_while_step [of i input p] assms by simp

lemma charAt_in_range: "charAt input i = [c] \<Longrightarrow> i < length input"
  by (cases "i < length input") (simp_all add: charAt_def)

lemma is_one_of_in_range:
  "32 \<notin> set chars \<Longrightarrow> is_one_of chars (charAt input i) \<Longrightarrow> i < length input"
  by (cases "i < length input") (simp_all add: charAt_def is_one_of_def)

lemma readHexLiteral_index:
  assumes "readHexLiteral input st = Inr (v, st')"
  shows "index st + 2 < index st' \<and> index st' \<le> length input
         \<and> st' = st\<lparr>index := index st'\<rparr>"
proof -
  define ds where "ds = index st + 2"
  define i2 where "i2 = scan_while isHexDigit input ds"
  define i3 where "i3 = (if charAt input i2 = [46]
                         then scan_while isHexDigit input (i2 + 1) else i2)"
  define e where "e = (if is_one_of (str ''+-'') (charAt input (i3 + 1))
                       then i3 + 1 + 1 else i3 + 1)"
  have eq: "case readHexLiteral input st of
              Inl _ \<Rightarrow> True
            | Inr (w, s) \<Rightarrow>
                isHexDigit (charCodeAt input ds)
                \<and> (if is_one_of (str ''pP'') (charAt input i3)
                   then isDecDigit (charCodeAt input e)
                        \<and> s = st\<lparr>index := scan_while isDecDigit input e\<rparr>
                   else s = st\<lparr>index := i3\<rparr>)"
    by (simp add: readHexLiteral_def readBinaryExponent_def Let_def ds_def i2_def i3_def
          e_def)
  with assms have hex: "isHexDigit (charCodeAt input ds)"
    by simp
  from isHexDigit_in_range [OF hex] have ds: "ds < length input" .
  have i2: "ds < i2" "i2 \<le> length input"
    using scan_while_progress [of isHexDigit input ds] hex
      scan_while_le [of ds input isHexDigit] ds
    by (simp_all add: i2_def)
  have i3: "i2 \<le> i3" "i3 \<le> length input"
  proof -
    show "i2 \<le> i3"
      using scan_while_mono [of "i2 + 1" isHexDigit input] by (simp add: i3_def)
    show "i3 \<le> length input"
    proof (cases "charAt input i2 = [46]")
      case True
      from charAt_in_range [OF True] have "i2 + 1 \<le> length input" by simp
      from scan_while_le [OF this] True show ?thesis by (simp add: i3_def)
    next
      case False
      with i2 show ?thesis by (simp add: i3_def)
    qed
  qed
  show ?thesis
  proof (cases "is_one_of (str ''pP'') (charAt input i3)")
    case False
    with eq assms have "st' = st\<lparr>index := i3\<rparr>" by simp
    with i2 i3 show ?thesis by (simp add: ds_def)
  next
    case True
    with eq assms have d: "isDecDigit (charCodeAt input e)"
      and st': "st' = st\<lparr>index := scan_while isDecDigit input e\<rparr>"
      by simp_all
    from isDecDigit_in_range [OF d] have "e \<le> length input" by simp
    from scan_while_le [OF this] scan_while_mono [of e isDecDigit input]
    have "e \<le> index st'" "index st' \<le> length input" by (simp_all add: st')
    moreover have "i3 < e" by (simp add: e_def)
    ultimately show ?thesis using i2 i3 st' by (simp add: ds_def)
  qed
qed

lemma readDecLiteral_index:
  assumes "readDecLiteral input st = Inr (v, st')"
    and "index st < length input"
    and "isDecDigit (charCodeAt input (index st))
         \<or> (charAt input (index st) = [46] \<and> isDecDigit (charCodeAt input (index st + 1)))"
  shows "index st < index st' \<and> index st' \<le> length input
         \<and> st' = st\<lparr>index := index st'\<rparr>"
proof -
  define i1 where "i1 = scan_while isDecDigit input (index st)"
  define i2 where "i2 = (if charAt input i1 = [46]
                         then scan_while isDecDigit input (i1 + 1) else i1)"
  define e where "e = (if is_one_of (str ''+-'') (charAt input (i2 + 1))
                       then i2 + 1 + 1 else i2 + 1)"
  have eq: "case readDecLiteral input st of
              Inl _ \<Rightarrow> True
            | Inr (w, s) \<Rightarrow>
                (if is_one_of (str ''eE'') (charAt input i2)
                 then isDecDigit (charCodeAt input e)
                      \<and> s = st\<lparr>index := scan_while isDecDigit input e\<rparr>
                 else s = st\<lparr>index := i2\<rparr>)"
    by (simp add: readDecLiteral_def Let_def i1_def i2_def e_def)
  have i1: "index st \<le> i1" "i1 \<le> length input"
    using scan_while_mono [of "index st" isDecDigit input]
      scan_while_le [of "index st" input isDecDigit] assms(2)
    by (simp_all add: i1_def)
  have i2: "i1 \<le> i2" "i2 \<le> length input"
  proof -
    show "i1 \<le> i2"
      using scan_while_mono [of "i1 + 1" isDecDigit input] by (simp add: i2_def)
    show "i2 \<le> length input"
    proof (cases "charAt input i1 = [46]")
      case True
      from charAt_in_range [OF True] have "i1 + 1 \<le> length input" by simp
      from scan_while_le [OF this] True show ?thesis by (simp add: i2_def)
    next
      case False
      with i1 show ?thesis by (simp add: i2_def)
    qed
  qed
  have pos: "index st < i2"
  proof (cases "isDecDigit (charCodeAt input (index st))")
    case True
    from scan_while_progress [of isDecDigit input "index st"] True assms(2) i2
    show ?thesis by (simp add: i1_def)
  next
    case False
    with assms(3) have dot: "charAt input (index st) = [46]" by simp
    from False have "i1 = index st" by (simp add: i1_def scan_while_stop)
    with dot have "i2 = scan_while isDecDigit input (index st + 1)" by (simp add: i2_def)
    with scan_while_mono [of "index st + 1" isDecDigit input] show ?thesis by simp
  qed
  show ?thesis
  proof (cases "is_one_of (str ''eE'') (charAt input i2)")
    case False
    with eq assms(1) have "st' = st\<lparr>index := i2\<rparr>" by simp
    with pos i2 show ?thesis by simp
  next
    case True
    with eq assms(1) have d: "isDecDigit (charCodeAt input e)"
      and st': "st' = st\<lparr>index := scan_while isDecDigit input e\<rparr>"
      by simp_all
    from isDecDigit_in_range [OF d] have "e \<le> length input" by simp
    from scan_while_le [OF this] scan_while_mono [of e isDecDigit input]
    have "e \<le> index st'" "index st' \<le> length input" by (simp_all add: st')
    moreover have "i2 < e" by (simp add: e_def)
    ultimately show ?thesis using pos st' by simp
  qed
qed

subsection \<open>The range of a token that is no string\<close>

lemma slice_nth:
  "b \<le> length input \<Longrightarrow> j < b - a \<Longrightarrow> slice input a b ! j = input ! (a + j)"
  by (simp add: slice_def)

lemma length_slice: "b \<le> length input \<Longrightarrow> length (slice input a b) = b - a"
  by (simp add: slice_def)

lemma slice_single: "charCodeAt input i = Some a \<Longrightarrow> slice input i (Suc i) = [a]"
  by (cases "i < length input")
     (simp_all add: charCodeAt_def slice_def take_Suc_conv_app_nth)

lemma slice_pair:
  assumes "charCodeAt input i = Some a" and "charCodeAt input (Suc i) = Some b"
  shows "slice input i (Suc (Suc i)) = [a, b]"
proof -
  from assms have len: "Suc i < length input" and a: "input ! i = a" and b: "input ! Suc i = b"
    by (auto simp: charCodeAt_def split: if_splits)
  from len have "drop i input = input ! i # input ! Suc i # drop (Suc (Suc i)) input"
    by (simp add: Cons_nth_drop_Suc)
  with a b show ?thesis by (simp add: slice_def)
qed

lemma slice_triple:
  assumes "charCodeAt input i = Some a" and "charCodeAt input (Suc i) = Some b"
    and "charCodeAt input (Suc (Suc i)) = Some c"
  shows "slice input i (Suc (Suc (Suc i))) = [a, b, c]"
proof -
  from assms have len: "Suc (Suc i) < length input" and a: "input ! i = a"
    and b: "input ! Suc i = b" and c: "input ! Suc (Suc i) = c"
    by (auto simp: charCodeAt_def split: if_splits)
  from len have "drop i input =
      input ! i # input ! Suc i # input ! Suc (Suc i) # drop (Suc (Suc (Suc i))) input"
    by (simp add: Cons_nth_drop_Suc)
  with a b c show ?thesis by (simp add: slice_def)
qed

lemma charCodeAt_Some_in_range: "charCodeAt input i = Some a \<Longrightarrow> i < length input"
  by (cases "i < length input") (simp_all add: charCodeAt_def)

lemma punct_ok:
  assumes "emit (scanPunctuator v (st\<lparr>tokenStart := index st\<rparr>)) = Inr (Some t, st')"
    and "v \<noteq> []"
    and "slice input (index st) (index st + length v) = v"
    and "index st + length v \<le> length input"
  shows "tokenOK opts input st t st'"
  using assms
  by (auto simp: emit_def scanPunctuator_def Let_def tokenOK_def rangeSpellsToken_def)

lemma vararg_ok:
  assumes "emit (scanVarargLiteral (st\<lparr>tokenStart := index st\<rparr>)) = Inr (Some t, st')"
    and "slice input (index st) (index st + 3) = str ''...''"
    and "index st + 3 \<le> length input"
  shows "tokenOK opts input st t st'"
  using assms
  by (auto simp: emit_def scanVarargLiteral_def Let_def tokenOK_def rangeSpellsToken_def)

lemma string_ok:
  assumes "emitOrRaise (scanStringLiteral input f (st\<lparr>tokenStart := index st\<rparr>))
           = Inr (Some t, st')"
  shows "tokenOK opts input st t st'"
proof -
  from assms have r: "scanStringLiteral input f (st\<lparr>tokenStart := index st\<rparr>) = Inr (t, st')"
    by (auto simp: emitOrRaise_def emit_def split: sum.splits)
  from scanStringLiteral_progress [OF r] have "index st < index st'" by simp
  moreover from r have "tok_type t = StringLiteral"
    by (auto simp: scanStringLiteral_def Let_def split: sum.splits)
  ultimately show ?thesis by (simp add: tokenOK_def)
qed

lemma longstring_ok:
  assumes "emitOrRaise (scanLongStringLiteral input (st\<lparr>tokenStart := index st\<rparr>))
           = Inr (Some t, st')"
  shows "tokenOK opts input st t st'"
proof -
  from assms have r: "scanLongStringLiteral input (st\<lparr>tokenStart := index st\<rparr>) = Inr (t, st')"
    by (auto simp: emitOrRaise_def emit_def split: sum.splits)
  from scanLongStringLiteral_progress [OF r] have "index st < index st'" by simp
  moreover from r have "tok_type t = StringLiteral"
    by (auto simp: scanLongStringLiteral_def Let_def split: sum.splits option.splits)
  ultimately show ?thesis by (simp add: tokenOK_def)
qed

lemma number_ok:
  assumes "emitOrRaise (scanNumericLiteral input (st\<lparr>tokenStart := index st\<rparr>))
           = Inr (Some t, st')"
    and "index st < length input"
    and "isDecDigit (charCodeAt input (index st))
         \<or> (charAt input (index st) = [46] \<and> isDecDigit (charCodeAt input (index st + 1)))"
  shows "tokenOK opts input st t st'"
proof -
  let ?st0 = "st\<lparr>tokenStart := index st\<rparr>"
  from assms(1) have r: "scanNumericLiteral input ?st0 = Inr (t, st')"
    by (auto simp: emitOrRaise_def emit_def split: sum.splits)
  then obtain v where
    rd: "(if charAt input (index ?st0) = [48]
             \<and> is_one_of (str ''xX'') (charAt input (index ?st0 + 1))
          then readHexLiteral input ?st0 else readDecLiteral input ?st0) = Inr (v, st')"
    and t: "tok_type t = NumericLiteral" "tok_range t = (tokenStart st', index st')"
    by (auto simp: scanNumericLiteral_def Let_def split: sum.splits)
  have ix: "index ?st0 < index st' \<and> index st' \<le> length input
            \<and> st' = ?st0\<lparr>index := index st'\<rparr>"
  proof (cases "charAt input (index ?st0) = [48]
                \<and> is_one_of (str ''xX'') (charAt input (index ?st0 + 1))")
    case True
    with rd have "readHexLiteral input ?st0 = Inr (v, st')" by simp
    from readHexLiteral_index [OF this] show ?thesis by simp
  next
    case False
    with rd have "readDecLiteral input ?st0 = Inr (v, st')" by (simp only: if_False)
    from readDecLiteral_index [OF this] assms(2,3) show ?thesis by simp
  qed
  then have ts: "tokenStart st' = index st"
    by (metis cursor.select_convs(4) cursor.surjective cursor.update_convs(1) cursor.update_convs(4))
  have "\<exists>s s'. index s = index st \<and> tokenStart s = index st
                 \<and> scanNumericLiteral input s = Inr (t, s') \<and> index s' = index st'"
    using r by (intro exI [of _ ?st0] exI [of _ st']) simp
  with ix ts t show ?thesis
    unfolding tokenOK_def rangeSpellsToken_def Let_def by simp
qed

lemma isIdentifierStart_Part:
  "isIdentifierStart opts c \<Longrightarrow> isIdentifierPart opts c"
  by (cases c) (auto simp: isIdentifierStart_def isIdentifierPart_def split: if_splits)

lemma isIdentifierStart_in_range:
  "isIdentifierStart opts (charCodeAt input i) \<Longrightarrow> i < length input"
  by (cases "i < length input") (simp_all add: isIdentifierStart_def charCodeAt_def)

lemma ident_ok:
  assumes "emit (scanIdentifierOrKeyword input opts f (st\<lparr>tokenStart := index st\<rparr>))
           = Inr (Some t, st')"
    and "isIdentifierStart opts (charCodeAt input (index st))"
  shows "tokenOK opts input st t st'"
proof -
  define i where "i = scan_while (isIdentifierPart opts) input (index st + 1)"
  define lx where "lx = slice input (index st) i"
  from isIdentifierStart_in_range [OF assms(2)] have len: "index st < length input" .
  have i: "index st < i" "i \<le> length input"
    using scan_while_mono [of "index st + 1" "isIdentifierPart opts" input]
      scan_while_le [of "index st + 1" input "isIdentifierPart opts"] len
    by (simp_all add: i_def)
  have tl: "length lx = i - index st" by (simp add: lx_def length_slice i)
  have nth: "lx ! j = input ! (index st + j)" if "j < i - index st" for j
    using that i by (simp add: lx_def slice_nth)
  have part: "isIdentifierPart opts (Some (lx ! j))" if "j < length lx" for j
  proof (cases j)
    case 0
    with assms(2) len nth [of 0] i show ?thesis
      by (auto simp: charCodeAt_def dest: isIdentifierStart_Part)
  next
    case (Suc k)
    with that tl have b: "index st + 1 \<le> index st + j" "index st + j < i" by simp_all
    from scan_while_all [OF b(1) b(2) [unfolded i_def]] b(2) i(2) nth [of j] that tl
    show ?thesis by (simp add: charCodeAt_def)
  qed
  have ne: "lx \<noteq> []" using tl i by auto
  have "hd lx = input ! index st"
    using nth [of 0] i by (simp add: hd_conv_nth [OF ne])
  with assms(2) len have "isIdentifierStart opts (Some (hd lx))"
    by (simp add: charCodeAt_def)
  with ne part have it: "identifierText opts lx"
    unfolding identifierText_def list_all_length by simp
  from assms(1) have st': "st' = st\<lparr>tokenStart := index st, index := i\<rparr>"
    and rng: "tok_range t = (index st, i)"
    by (auto simp: emit_def scanIdentifierOrKeyword_def Let_def i_def split: if_splits)
  from assms(1) i it have "rangeSpellsToken opts input t"
    by (auto simp: rangeSpellsToken_def emit_def scanIdentifierOrKeyword_def Let_def
          i_def lx_def split: if_splits)
  with st' rng i show ?thesis by (simp add: tokenOK_def)
qed

lemma unexpected_not_token: "unexpected st \<noteq> Inr r"
  by (simp add: unexpected_def)

lemma lexToken_tokenOK:
  assumes "lexToken input opts f st = Inr (Some t, st')"
  shows "tokenOK opts input st t st'"
proof -
  let ?st0 = "st\<lparr>tokenStart := index st\<rparr>"
  let ?next = "charCodeAt input (Suc (index st))"
  from assms have len: "index st < length input"
    by (cases "index st < length input") (simp_all add: lexToken_def)
  define c where "c = input ! index st"
  from len have cc: "charCodeAt input (index st) = Some c" and ca: "charAt input (index st) = [c]"
    by (simp_all add: charCodeAt_def charAt_def c_def)
  note sl = slice_single [OF cc] slice_pair [OF cc] slice_triple [OF cc]
  note po = punct_ok [where opts = opts and input = input]
  show ?thesis
  proof (cases "isIdentifierStart opts (Some c)")
    case True
    with assms len cc
    have "emit (scanIdentifierOrKeyword input opts f ?st0) = Inr (Some t, st')"
      by (simp add: lexToken_def Let_def)
    from ident_ok [OF this] True cc show ?thesis by simp
  next
    case nid: False
    consider (quote) "c = 39 \<or> c = 34" | (digit) "48 \<le> c \<and> c \<le> 57" | (dot) "c = 46"
      | (eq) "c = 61" | (gt) "c = 62" | (lt) "c = 60" | (tilde) "c = 126" | (colon) "c = 58"
      | (bracket) "c = 91" | (slash) "c = 47" | (amp) "c = 38"
      | (single) "c \<in> {42, 94, 37, 44, 123, 125, 93, 40, 41, 59, 35, 45, 43, 124}"
      | (other) "c \<notin> {39, 34, 46, 61, 62, 60, 126, 58, 91, 47, 38, 42, 94, 37, 44, 123,
                        125, 93, 40, 41, 59, 35, 45, 43, 124}" "\<not> (48 \<le> c \<and> c \<le> 57)"
      by blast
    then show ?thesis
    proof cases
      case quote
      with assms len cc nid
      have "emitOrRaise (scanStringLiteral input f ?st0) = Inr (Some t, st')"
        by (auto simp: lexToken_def Let_def)
      then show ?thesis by (rule string_ok)
    next
      case digit
      with assms len cc nid
      have "emitOrRaise (scanNumericLiteral input ?st0) = Inr (Some t, st')"
        by (auto simp: lexToken_def Let_def isDecDigit_def)
      from number_ok [OF this len] digit cc show ?thesis by (simp add: isDecDigit_def)
    next
      case dot
      show ?thesis
      proof (cases "isDecDigit ?next")
        case True
        with dot assms len cc nid
        have "emitOrRaise (scanNumericLiteral input ?st0) = Inr (Some t, st')"
          by (simp add: lexToken_def Let_def isDecDigit_def)
        from number_ok [OF this len] True dot ca show ?thesis by simp
      next
        case nd: False
        show ?thesis
        proof (cases "?next = Some 46")
          case n46: True
          show ?thesis
          proof (cases "charCodeAt input (Suc (Suc (index st))) = Some 46")
            case True
            with n46 nd dot assms len cc nid
            have "emit (scanVarargLiteral ?st0) = Inr (Some t, st')"
              by (simp add: lexToken_def Let_def isDecDigit_def)
            moreover from sl(3) [OF n46 True] dot
            have "slice input (index st) (index st + 3) = str ''...''"
              by (simp add: str_def numeral_3_eq_3)
            moreover from charCodeAt_Some_in_range [OF True]
            have "index st + 3 \<le> length input" by simp
            ultimately show ?thesis by (rule vararg_ok)
          next
            case False
            with n46 nd dot assms len cc nid
            have e: "emit (scanPunctuator (str ''..'') ?st0) = Inr (Some t, st')"
              by (simp add: lexToken_def Let_def isDecDigit_def)
            show ?thesis
              by (rule po [OF e])
                 (use sl(2) [OF n46] dot charCodeAt_Some_in_range [OF n46]
                   in \<open>simp_all add: str_def\<close>)
          qed
        next
          case False
          with nd dot assms len cc nid
          have e: "emit (scanPunctuator (str ''.'') ?st0) = Inr (Some t, st')"
            by (simp add: lexToken_def Let_def isDecDigit_def)
          show ?thesis
            by (rule po [OF e]) (use sl(1) dot len in \<open>simp_all add: str_def\<close>)
        qed
      qed
    next
      case eq
      with assms len cc nid show ?thesis
        using sl(1) sl(2) [of 61] sl(2) [of 62]
          charCodeAt_Some_in_range [of input "Suc (index st)"]
        by (auto simp: lexToken_def Let_def isDecDigit_def isIdentifierStart_def str_def
              Suc_le_eq split: if_splits elim!: po)
    next
      case gt
      with assms len cc nid show ?thesis
        using sl(1) sl(2) [of 61] sl(2) [of 62]
          charCodeAt_Some_in_range [of input "Suc (index st)"]
        by (auto simp: lexToken_def Let_def isDecDigit_def isIdentifierStart_def str_def
              Suc_le_eq split: if_splits elim!: po)
    next
      case lt
      with assms len cc nid show ?thesis
        using sl(1) sl(2) [of 61] sl(2) [of 60]
          charCodeAt_Some_in_range [of input "Suc (index st)"]
        by (auto simp: lexToken_def Let_def isDecDigit_def isIdentifierStart_def str_def
              Suc_le_eq split: if_splits elim!: po)
    next
      case tilde
      with assms len cc nid show ?thesis
        using sl(1) sl(2) [of 61]
          charCodeAt_Some_in_range [of input "Suc (index st)"]
        by (auto simp: lexToken_def Let_def isDecDigit_def isIdentifierStart_def str_def
              Suc_le_eq unexpected_def split: if_splits elim!: po)
    next
      case colon
      with assms len cc nid show ?thesis
        using sl(1) sl(2) [of 58]
          charCodeAt_Some_in_range [of input "Suc (index st)"]
        by (auto simp: lexToken_def Let_def isDecDigit_def isIdentifierStart_def str_def
              Suc_le_eq split: if_splits elim!: po)
    next
      case bracket
      with assms len cc nid show ?thesis
        using sl(1)
        by (auto simp: lexToken_def Let_def isDecDigit_def isIdentifierStart_def str_def
              Suc_le_eq split: if_splits elim!: po longstring_ok)
    next
      case slash
      with assms len cc nid show ?thesis
        using sl(1) sl(2) [of 47]
          charCodeAt_Some_in_range [of input "Suc (index st)"]
        by (auto simp: lexToken_def Let_def isDecDigit_def isIdentifierStart_def str_def
              Suc_le_eq split: if_splits elim!: po)
    next
      case amp
      with assms len cc ca nid show ?thesis
        using sl(1)
        by (auto simp: lexToken_def Let_def isDecDigit_def isIdentifierStart_def
              Suc_le_eq unexpected_def split: if_splits elim!: po)
    next
      case single
      with nid have ns: "\<not> isIdentifierStart opts (Some c)" "c \<noteq> 39" "c \<noteq> 34"
        "\<not> isDecDigit (Some c)" "c \<noteq> 46" "c \<noteq> 61" "c \<noteq> 62" "c \<noteq> 60" "c \<noteq> 126"
        "c \<noteq> 58" "c \<noteq> 91" "c \<noteq> 47" "c \<noteq> 38"
        by (auto simp: isDecDigit_def)
      from single have "Some c \<in> Some ` {42, 94, 37, 44, 123, 125, 93, 40, 41, 59, 35, 45, 43, 124}"
        by (rule imageI)
      with assms len cc ca ns
      have e: "emit (scanPunctuator [c] ?st0) = Inr (Some t, st')"
        by (simp add: lexToken_def Let_def)
      show ?thesis by (rule po [OF e]) (use sl(1) len in simp_all)
    next
      case other
      with nid have ns: "\<not> isIdentifierStart opts (Some c)" "c \<noteq> 39" "c \<noteq> 34"
        "\<not> isDecDigit (Some c)" "c \<noteq> 46" "c \<noteq> 61" "c \<noteq> 62" "c \<noteq> 60" "c \<noteq> 126"
        "c \<noteq> 58" "c \<noteq> 91" "c \<noteq> 47" "c \<noteq> 38"
        by (auto simp: isDecDigit_def)
      from other have "Some c \<notin> Some ` {42, 94, 37, 44, 123, 125, 93, 40, 41, 59, 35, 45, 43, 124}"
        by auto
      with assms len cc ns have False
        by (simp add: lexToken_def Let_def unexpected_def)
      then show ?thesis ..
    qed
  qed
qed

lemma skipComments_mono:
  "skipComments input st cs = (Inr st', cs') \<Longrightarrow> index st \<le> index st'"
proof (induction input st cs rule: skipComments.induct)
  case (1 input st cs)
  show ?case
  proof (cases "charCodeAt input (index st) = Some 45
                \<and> charCodeAt input (index st + 1) = Some 45")
    case False
    with "1.prems" show ?thesis by (auto simp: skipComments.simps [of input st cs])
  next
    case True
    obtain r c1 where sc: "scanComment input st cs = (r, c1)" by (cases "scanComment input st cs")
    show ?thesis
    proof (cases r)
      case (Inl e)
      with "1.prems" True sc show ?thesis by (simp add: skipComments.simps [of input st cs])
    next
      case (Inr s1)
      with "1.prems" True sc
      have "skipComments input (skipWhiteSpace input s1) c1 = (Inr st', cs')"
        by (simp add: skipComments.simps [of input st cs])
      from "1.IH" [OF True sc [symmetric] Inr this]
      have "index (skipWhiteSpace input s1) \<le> index st'" .
      moreover from sc Inr have "index st + 2 \<le> index s1"
        by (auto dest: scanComment_progress)
      moreover note skipWhiteSpace_mono [of s1 input]
      ultimately show ?thesis by simp
    qed
  qed
qed

lemma lex_token:
  assumes "lex input opts f st cs = (Inr (Some t, st'), cs')"
  obtains st1 where "index st \<le> index st1" and "lexToken input opts f st1 = Inr (Some t, st')"
proof -
  from assms obtain st1 where sk: "skipComments input (skipWhiteSpace input st) cs = (Inr st1, cs')"
    and lt: "lexToken input opts f st1 = Inr (Some t, st')"
    by (auto simp: lex_def split: prod.splits sum.splits)
  from skipComments_mono [OF sk] skipWhiteSpace_mono [of st input]
  have "index st \<le> index st1" by simp
  with lt that show thesis by blast
qed

lemma lex_progress:
  assumes "lex input opts f st cs = (Inr (Some t, st'), cs')"
  shows "index st < index st'" and "index st < length input"
proof -
  from assms obtain st1 where a: "index st \<le> index st1"
    and b: "lexToken input opts f st1 = Inr (Some t, st')"
    by (rule lex_token)
  from lexToken_tokenOK [OF b] a show "index st < index st'" by (simp add: tokenOK_def)
  from b have "index st1 < length input"
    by (cases "index st1 < length input") (simp_all add: lexToken_def)
  with a show "index st < length input" by simp
qed

lemma tokenLoop_tokens:
  assumes "tokenLoop input opts f acc st cs = Some (toks, err, cs')"
    and "\<forall>t\<in>set acc. tok_type t \<noteq> StringLiteral \<longrightarrow> rangeSpellsToken opts input t"
  shows "\<forall>t\<in>set toks. tok_type t \<noteq> StringLiteral \<longrightarrow> rangeSpellsToken opts input t"
proof -
  have "(\<forall>t\<in>set acc. tok_type t \<noteq> StringLiteral \<longrightarrow> rangeSpellsToken opts input t) \<longrightarrow>
        (\<forall>t\<in>set (fst y). tok_type t \<noteq> StringLiteral \<longrightarrow> rangeSpellsToken opts input t)"
    if run: "tokenLoop input opts f acc st cs = Some y" for y
  proof (rule tokenLoop.raw_induct
           [where P = "\<lambda>input opts f acc st cs y.
              (\<forall>t\<in>set acc. tok_type t \<noteq> StringLiteral \<longrightarrow> rangeSpellsToken opts input t) \<longrightarrow>
              (\<forall>t\<in>set (fst y). tok_type t \<noteq> StringLiteral \<longrightarrow> rangeSpellsToken opts input t)",
            OF _ run], goal_cases)
    case (1 rec input opts f acc st cs y)
    obtain r c1 where lx: "lex input opts f st cs = (r, c1)" by (cases "lex input opts f st cs")
    show ?case
    proof (cases r)
      case (Inl e)
      with 1(2) lx show ?thesis by auto
    next
      case (Inr p)
      obtain tk st' where p: "p = (tk, st')" by (cases p)
      show ?thesis
      proof (cases tk)
        case None
        with Inr p 1(2) lx show ?thesis by auto
      next
        case (Some t)
        with Inr p lx have l: "lex input opts f st cs = (Inr (Some t, st'), c1)" by simp
        then obtain st1 where "lexToken input opts f st1 = Inr (Some t, st')"
          by (rule lex_token)
        from lexToken_tokenOK [OF this]
        have t: "tok_type t \<noteq> StringLiteral \<longrightarrow> rangeSpellsToken opts input t"
          by (simp add: tokenOK_def)
        from Some Inr p 1(2) lx have "rec input opts f (t # acc) st' c1 = Some y" by simp
        from 1(1) [OF this] t show ?thesis by simp
      qed
    qed
  qed
  from this [OF assms(1)] assms(2) show ?thesis by simp
qed

text \<open>
  Claim C4: for every token the generator yields that is not a StringLiteral, the
  half-open range indexes exactly the text of the input that spells the token as
  written: a punctuator's range slices to the punctuator, a numeric literal's range to
  the whole numeral the scanner consumed, an identifier's, keyword's, boolean's or nil's
  range to the word before the encoding fixup.
\<close>

theorem C4_range_spells_token:
  assumes "tokenize input opts = Some (toks, err, cs)"
    and "t \<in> set toks"
    and "tok_type t \<noteq> StringLiteral"
  shows "rangeSpellsToken opts input t"
proof -
  from assms(1) obtain st where
    "tokenLoop input opts (resolveFeatures opts) [] st (comments opts) = Some (toks, err, cs)"
    by (auto simp: tokenize_def Let_def split: if_splits option.splits)
  from tokenLoop_tokens [OF this] assms(2,3) show ?thesis by simp
qed

theorem C4_range_spells_token_witness:
  "tokenize (str ''n >= 0x1F'') defaultOptions =
     Some ([\<lparr>tok_type = Identifier, tok_value = VString (str ''n''), tok_line = 1,
             tok_lineStart = 0, tok_range = (0, 1), tok_lastLine = None,
             tok_lastLineStart = None\<rparr>,
            \<lparr>tok_type = Punctuator, tok_value = VString (str ''>=''), tok_line = 1,
             tok_lineStart = 0, tok_range = (2, 4), tok_lastLine = None,
             tok_lastLineStart = None\<rparr>,
            \<lparr>tok_type = NumericLiteral, tok_value = VNumber (Some 31), tok_line = 1,
             tok_lineStart = 0, tok_range = (5, 9), tok_lastLine = None,
             tok_lastLineStart = None\<rparr>],
           None, None)
   \<and> rangeSpellsToken defaultOptions (str ''n >= 0x1F'')
        \<lparr>tok_type = NumericLiteral, tok_value = VNumber (Some 31), tok_line = 1,
         tok_lineStart = 0, tok_range = (5, 9), tok_lastLine = None,
         tok_lastLineStart = None\<rparr>
   \<and> slice (str ''n >= 0x1F'') 5 9 = str ''0x1F''"
proof -
  have run: "tokenize (str ''n >= 0x1F'') defaultOptions =
     Some ([\<lparr>tok_type = Identifier, tok_value = VString (str ''n''), tok_line = 1,
             tok_lineStart = 0, tok_range = (0, 1), tok_lastLine = None,
             tok_lastLineStart = None\<rparr>,
            \<lparr>tok_type = Punctuator, tok_value = VString (str ''>=''), tok_line = 1,
             tok_lineStart = 0, tok_range = (2, 4), tok_lastLine = None,
             tok_lastLineStart = None\<rparr>,
            \<lparr>tok_type = NumericLiteral, tok_value = VNumber (Some 31), tok_line = 1,
             tok_lineStart = 0, tok_range = (5, 9), tok_lastLine = None,
             tok_lastLineStart = None\<rparr>],
           None, None)"
    by (simp add: tokenizer_eval)
  have sl: "slice (str ''n >= 0x1F'') 5 9 = str ''0x1F''"
    by (simp add: slice_def str_def)
  from C4_range_spells_token [OF run, of
      "\<lparr>tok_type = NumericLiteral, tok_value = VNumber (Some 31), tok_line = 1,
         tok_lineStart = 0, tok_range = (5, 9), tok_lastLine = None,
         tok_lastLineStart = None\<rparr>"]
    run sl
  show ?thesis by simp
qed

subsection \<open>The comment array\<close>

lemma pushComment_None: "pushComment input content st None = None"
  by (simp add: pushComment_def)

lemma pushComment_Some: "\<exists>new. pushComment input content st (Some l) = Some (l @ new)"
  by (simp add: pushComment_def)

lemma scanComment_comments:
  "fst (scanComment input st cs) = fst (scanComment input st None)
   \<and> snd (scanComment input st None) = None
   \<and> (\<forall>l. cs = Some l \<longrightarrow> (\<exists>new. snd (scanComment input st cs) = Some (l @ new)))"
  by (auto simp: scanComment_def Let_def pushComment_def split: sum.splits)

lemma skipComments_comments:
  "fst (skipComments input st (Some l)) = fst (skipComments input st None)
   \<and> snd (skipComments input st None) = None
   \<and> (\<exists>new. snd (skipComments input st (Some l)) = Some (l @ new))"
proof (induction input st "Some l" arbitrary: l rule: skipComments.induct)
  case (1 input st)
  show ?case
  proof (cases "charCodeAt input (index st) = Some 45
                \<and> charCodeAt input (index st + 1) = Some 45")
    case False
    then show ?thesis
      by (auto simp: skipComments.simps [of input st])
  next
    case True
    obtain r c1 where sc: "scanComment input st (Some l) = (r, c1)"
      by (cases "scanComment input st (Some l)")
    from scanComment_comments [of input st "Some l"] sc
    obtain new where sn: "scanComment input st None = (r, None)" and c1: "c1 = Some (l @ new)"
      by (cases "scanComment input st None") auto
    show ?thesis
    proof (cases r)
      case (Inl e)
      with True sc sn c1 show ?thesis
        by (simp add: skipComments.simps [of input st])
    next
      case (Inr s1)
      from sc c1 have sc': "(r, Some (l @ new)) = scanComment input st (Some l)" by simp
      from "1.hyps" [OF True sc' Inr]
      obtain new2 where
        a: "fst (skipComments input (skipWhiteSpace input s1) (Some (l @ new))) =
            fst (skipComments input (skipWhiteSpace input s1) None)"
        and b: "snd (skipComments input (skipWhiteSpace input s1) None) = None"
        and c: "snd (skipComments input (skipWhiteSpace input s1) (Some (l @ new)))
                = Some ((l @ new) @ new2)"
        by auto
      from True sc sn c1 Inr a b c show ?thesis
        by (simp add: skipComments.simps [of input st])
    qed
  qed
qed

lemma isIdentifier_opts:
  assumes "extendedIdentifiers o1 = extendedIdentifiers o2"
  shows "isIdentifierStart o1 = isIdentifierStart o2"
    and "isIdentifierPart o1 = isIdentifierPart o2"
  unfolding isIdentifierStart_def isIdentifierPart_def assms by (rule refl)+

lemma lexToken_opts:
  assumes "extendedIdentifiers o1 = extendedIdentifiers o2"
  shows "lexToken input o1 f st = lexToken input o2 f st"
  unfolding lexToken_def scanIdentifierOrKeyword_def isIdentifier_opts [OF assms] ..

lemma lex_comments:
  assumes "extendedIdentifiers o1 = extendedIdentifiers o2"
  shows "fst (lex input o2 f st (Some l)) = fst (lex input o1 f st None)
         \<and> snd (lex input o1 f st None) = None
         \<and> (\<exists>new. snd (lex input o2 f st (Some l)) = Some (l @ new))"
  using skipComments_comments [of input "skipWhiteSpace input st" l]
    lexToken_opts [OF assms, of input f]
  by (auto simp: lex_def split: prod.splits sum.splits)

lemma tokenLoop_comments:
  assumes "extendedIdentifiers o1 = extendedIdentifiers o2"
  shows "\<exists>toks err new. tokenLoop input o1 f acc st None = Some (toks, err, None)
           \<and> tokenLoop input o2 f acc st (Some l) = Some (toks, err, Some (l @ new))"
proof (induction "length input - index st" arbitrary: st acc l rule: less_induct)
  case less
  obtain r c2 where l2: "lex input o2 f st (Some l) = (r, c2)"
    by (cases "lex input o2 f st (Some l)")
  from lex_comments [OF assms, of input f st l] l2
  obtain new where l1: "lex input o1 f st None = (r, None)" and c2: "c2 = Some (l @ new)"
    by (cases "lex input o1 f st None") auto
  show ?case
  proof (cases r)
    case (Inl e)
    with l1 l2 c2 show ?thesis
      by (simp add: tokenLoop.simps [of input _ f acc st])
  next
    case (Inr p)
    obtain tk st' where p: "p = (tk, st')" by (cases p)
    show ?thesis
    proof (cases tk)
      case None
      with Inr p l1 l2 c2 show ?thesis
        by (simp add: tokenLoop.simps [of input _ f acc st])
    next
      case (Some t)
      with Inr p l1 have "lex input o1 f st None = (Inr (Some t, st'), None)" by simp
      from lex_progress [OF this] have "length input - index st' < length input - index st"
        by simp
      from less [OF this, of "t # acc" "l @ new"]
      obtain toks err new2 where
        "tokenLoop input o1 f (t # acc) st' None = Some (toks, err, None)"
        "tokenLoop input o2 f (t # acc) st' (Some (l @ new))
         = Some (toks, err, Some ((l @ new) @ new2))"
        by blast
      with Some Inr p l1 l2 c2 show ?thesis
        by (simp add: tokenLoop.simps [of input _ f acc st])
    qed
  qed
qed

lemma resolveFeatures_comments [simp]:
  "resolveFeatures (opts\<lparr>comments := c\<rparr>) = resolveFeatures opts"
  by (simp add: resolveFeatures_def)

text \<open>
  Claim C10: two runs that differ only in whether a comment array is supplied yield the
  same tokens and the same lexical error (or both never return); the run with the array
  only appends to it, and the run without one has none at the end.
\<close>

theorem C10_comments_do_not_influence:
  "(\<exists>toks err new.
       tokenize input (opts\<lparr>comments := None\<rparr>) = Some (toks, err, None)
       \<and> tokenize input (opts\<lparr>comments := Some l\<rparr>) = Some (toks, err, Some (l @ new)))
   \<or> (tokenize input (opts\<lparr>comments := None\<rparr>) = None
      \<and> tokenize input (opts\<lparr>comments := Some l\<rparr>) = None)"
proof -
  let ?o1 = "opts\<lparr>comments := None\<rparr>" and ?o2 = "opts\<lparr>comments := Some l\<rparr>"
  have e: "extendedIdentifiers ?o1 = extendedIdentifiers ?o2" by simp
  note loop = tokenLoop_comments [OF e, of input "resolveFeatures opts" "[]" _ l]
  define sh where "sh = (ignoreShebang opts \<and> take 2 input = str ''#!'')"
  have eq: "tokenize input (opts\<lparr>comments := c\<rparr>) =
              (if sh then
                 case skipShebang input initialCursor of
                   None \<Rightarrow> None
                 | Some st \<Rightarrow>
                     tokenLoop input (opts\<lparr>comments := c\<rparr>) (resolveFeatures opts) [] st c
               else tokenLoop input (opts\<lparr>comments := c\<rparr>) (resolveFeatures opts) []
                      initialCursor c)" for c
    by (simp add: tokenize_def Let_def sh_def cong: option.case_cong)
  show ?thesis
  proof (cases sh)
    case False
    with loop [of initialCursor] show ?thesis
      by (simp add: eq)
  next
    case True
    show ?thesis
    proof (cases "skipShebang input initialCursor")
      case None
      with True show ?thesis by (simp add: eq)
    next
      case (Some st)
      with True loop [of st] show ?thesis by (simp add: eq)
    qed
  qed
qed

theorem C10_comments_do_not_influence_witness:
  "tokenize (str ''--a'') (defaultOptions\<lparr>comments := None\<rparr>) = Some ([], None, None)
   \<and> tokenize (str ''--a'') (defaultOptions\<lparr>comments := Some []\<rparr>) =
       Some ([], None,
             Some [\<lparr>com_value = str ''a'', com_raw = str ''--a'', com_start = (1, 0),
                    com_end = (1, 3), com_range = (0, 3)\<rparr>])"
proof -
  have a: "tokenize (str ''--a'') (defaultOptions\<lparr>comments := None\<rparr>) = Some ([], None, None)"
    by (simp add: tokenizer_eval)
  have b: "scanComment (str ''--a'') initialCursor (Some []) =
             (Inr \<lparr>index = 3, line = 1, lineStart = 0, tokenStart = 0\<rparr>,
              Some [\<lparr>com_value = str ''a'', com_raw = str ''--a'', com_start = (1, 0),
                     com_end = (1, 3), com_range = (0, 3)\<rparr>])"
    by (simp add: tokenizer_eval)
  from C10_comments_do_not_influence [of "str ''--a''" defaultOptions "[]"] a
  obtain new where c: "tokenize (str ''--a'') (defaultOptions\<lparr>comments := Some []\<rparr>) =
       Some ([], None, Some new)"
    by auto
  have "skipComments (str ''--a'') initialCursor (Some []) =
             (Inr \<lparr>index = 3, line = 1, lineStart = 0, tokenStart = 0\<rparr>,
              Some [\<lparr>com_value = str ''a'', com_raw = str ''--a'', com_start = (1, 0),
                     com_end = (1, 3), com_range = (0, 3)\<rparr>])"
    by (subst skipComments.simps) (simp add: b, simp add: tokenizer_eval)
  then have "tokenize (str ''--a'') (defaultOptions\<lparr>comments := Some []\<rparr>) =
       Some ([], None,
             Some [\<lparr>com_value = str ''a'', com_raw = str ''--a'', com_start = (1, 0),
                    com_end = (1, 3), com_range = (0, 3)\<rparr>])"
    by (simp add: tokenize_def defaultOptions_def lex_def tokenLoop.simps lexToken_def
          skipWhiteSpace.simps initialCursor_def str_def isWhiteSpace_def charCodeAt_def
          consumeEOL_def isLineTerminator_def)
  with a show ?thesis by simp
qed

subsection \<open>Long brackets close at the first matching level\<close>

lemma levelMatches_iff:
  "levelMatches input i n = (\<forall>k<n. charAt input (i + k) = [61])"
  by (induction n) (auto simp: less_Suc_eq)

lemma charAt_eq_charCodeAt: "(charAt input i = [c]) = (charCodeAt input i = Some c)"
  by (simp add: charAt_def charCodeAt_def)

lemma scan_level:
  assumes "levelMatches input i n" and "charAt input (i + n) \<noteq> [61]"
  shows "scan_while (\<lambda>c. c = Some 61) input i = i + n"
  using assms
proof (induction n arbitrary: i)
  case 0
  then show ?case by (simp add: scan_while_stop charAt_eq_charCodeAt)
next
  case (Suc n)
  from Suc.prems(1) have h: "charAt input i = [61]" and r: "levelMatches input (Suc i) n"
    by (auto simp: levelMatches_iff)
  from h have "charCodeAt input i = Some 61" "i < length input"
    by (simp_all add: charAt_eq_charCodeAt charCodeAt_Some_in_range)
  then have "scan_while (\<lambda>c. c = Some 61) input i = scan_while (\<lambda>c. c = Some 61) input (Suc i)"
    by (simp add: scan_while.simps [of _ input i])
  also from Suc.IH [OF r] Suc.prems(2) have "\<dots> = Suc i + n" by simp
  finally show ?case by simp
qed

lemma closesAt_in_range: "closesAt input level p \<Longrightarrow> p < length input"
  by (auto simp: closesAt_def dest: charAt_in_range)

lemma closesAt_not_eol: "closesAt input level p \<Longrightarrow> \<not> isLineTerminator (charCodeAt input p)"
  by (auto simp: closesAt_def charAt_eq_charCodeAt isLineTerminator_def)

lemma eol_width_second:
  "isLineTerminator (charCodeAt input i) \<Longrightarrow> eol_width input i = 2 \<Longrightarrow>
   isLineTerminator (charCodeAt input (Suc i))"
  by (auto simp: eol_width_def isLineTerminator_def split: if_splits)

lemma skipEOLs_span:
  "index st \<le> j \<Longrightarrow> j < index (skipEOLs input st) \<Longrightarrow> isLineTerminator (charCodeAt input j)"
proof (induction input st rule: skipEOLs.induct)
  case (1 input st)
  show ?case
  proof (cases "isLineTerminator (charCodeAt input (index st))")
    case False
    with "1.prems" show ?thesis by (simp add: skipEOLs.simps [of input st])
  next
    case True
    let ?w = "eol_width input (index st)"
    let ?s = "snd (consumeEOL input st)"
    have ix: "index ?s = index st + ?w" by (simp add: consumeEOL_True [OF True])
    have w: "?w = 1 \<or> ?w = 2" by (simp add: eol_width_def)
    show ?thesis
    proof (cases "j < index st + ?w")
      case near: True
      with "1.prems"(1) w have "j = index st \<or> (j = Suc (index st) \<and> ?w = 2)" by auto
      with True eol_width_second [OF True] show ?thesis by auto
    next
      case False
      with ix have "index ?s \<le> j" by simp
      moreover from "1.prems"(2) True have "j < index (skipEOLs input ?s)"
        by (simp add: skipEOLs.simps [of input st])
      ultimately show ?thesis using "1.IH" [OF True] by simp
    qed
  qed
qed

lemma skipEOLs_stop: "\<not> isLineTerminator (charCodeAt input (index (skipEOLs input st)))"
proof (induction input st rule: skipEOLs.induct)
  case (1 input st)
  show ?case
  proof (cases "isLineTerminator (charCodeAt input (index st))")
    case False
    then show ?thesis by (simp add: skipEOLs.simps [of input st])
  next
    case True
    with "1.IH" show ?thesis by (simp add: skipEOLs.simps [of input st])
  qed
qed

lemma skipEOLs_before_close:
  assumes "closesAt input level p" and "index st \<le> p"
  shows "index (skipEOLs input st) \<le> p"
proof (rule ccontr)
  assume "\<not> index (skipEOLs input st) \<le> p"
  then have "p < index (skipEOLs input st)" by simp
  from skipEOLs_span [OF assms(2) this] closesAt_not_eol [OF assms(1)] show False by simp
qed

lemma longStringLoop_unfinished:
  assumes "\<forall>q\<ge>index st. \<not> closesAt input level q"
  shows "longStringLoop input c level fl fls fr ss st =
           Inl (tokenError (if c then unfinishedLongComment else unfinishedLongString)
                  fl fls (fr, fr + level + 1) None)"
  using assms
proof (induction input c level fl fls fr ss st rule: longStringLoop.induct)
  case (1 input isComment level firstLine firstLineStart "from" stringStart st)
  show ?case
  proof (cases "index st < length input")
    case False
    then show ?thesis by (rule longStringLoop_end)
  next
    case True
    let ?st1 = "skipEOLs input st"
    let ?st2 = "?st1\<lparr>index := index ?st1 + 1\<rparr>"
    have m: "index st \<le> index ?st1" by (rule skipEOLs_mono)
    with "1.prems" have nc: "\<not> closesAt input level (index ?st1)" by simp
    from "1.prems" m have "\<forall>q\<ge>index ?st2. \<not> closesAt input level q" by simp
    from "1.IH" [OF True refl refl refl nc this]
    show ?thesis by (simp add: longStringLoop_step [OF True nc])
  qed
qed

lemma longStringLoop_closes:
  assumes "closesAt input level p" and "index st \<le> p"
    and "\<forall>q. index st \<le> q \<and> q < p \<longrightarrow> \<not> closesAt input level q"
  shows "\<exists>st'. longStringLoop input c level fl fls fr ss st =
                 Inr (Some (slice input ss p), st') \<and> index st' = p + level + 2"
  using assms
proof (induction input c level fl fls fr ss st rule: longStringLoop.induct)
  case (1 input isComment level firstLine firstLineStart "from" stringStart st)
  let ?st1 = "skipEOLs input st"
  let ?st2 = "?st1\<lparr>index := index ?st1 + 1\<rparr>"
  from closesAt_in_range [OF "1.prems"(1)] "1.prems"(2) have inr: "index st < length input"
    by simp
  have m: "index st \<le> index ?st1" by (rule skipEOLs_mono)
  have le: "index ?st1 \<le> p" by (rule skipEOLs_before_close [OF "1.prems"(1,2)])
  show ?case
  proof (cases "index ?st1 = p")
    case True
    with "1.prems"(1) have cl: "closesAt input level (index ?st1)" by simp
    show ?thesis
      by (simp add: longStringLoop_close [OF inr cl] True)
  next
    case False
    with le have lt: "index ?st1 < p" by simp
    with "1.prems"(3) m have nc: "\<not> closesAt input level (index ?st1)" by simp
    from lt have a: "index ?st2 \<le> p" by simp
    from "1.prems"(3) m
    have b: "\<forall>q. index ?st2 \<le> q \<and> q < p \<longrightarrow> \<not> closesAt input level q" by simp
    from "1.IH" [OF inr refl refl refl nc "1.prems"(1) a b]
    show ?thesis by (simp add: longStringLoop_step [OF inr nc])
  qed
qed

lemma readLongString_opened:
  assumes "levelMatches input (index st + 1) level"
    and "charAt input (index st + 1 + level) = [91]"
  shows "\<exists>st3. index st3 = longBodyStart input (index st) level
           \<and> readLongString input c st =
               longStringLoop input c level (line st) (lineStart st) (index st)
                 (index st3) st3"
proof -
  from assms(2) have "charAt input (index st + 1 + level) \<noteq> [61]" by simp
  from scan_level [OF assms(1) this]
  have lv: "scan_while (\<lambda>c. c = Some 61) input (index st + 1) - (index st + 1) = level"
    by simp
  define st2 where "st2 = st\<lparr>index := index st + 1 + level + 1\<rparr>"
  define st3 where "st3 = (if isLineTerminator (charCodeAt input (index st2))
                           then snd (consumeEOL input st2) else st2)"
  have "readLongString input c st =
          longStringLoop input c level (line st) (lineStart st) (index st) (index st3) st3"
    unfolding readLongString_def Let_def lv using assms(2)
    by (simp add: st3_def st2_def)
  moreover have "index st3 = longBodyStart input (index st) level"
    by (auto simp: st3_def st2_def longBodyStart_def Let_def consumeEOL_True)
  ultimately show ?thesis by blast
qed

text \<open>
  Claim C6: a long bracket opened by \<open>[\<close>, \<open>level\<close> equals signs and \<open>[\<close> is closed
  by the first \<open>]\<close> from the start of its body on that is followed by exactly
  \<open>level\<close> equals signs and \<open>]\<close>; the value read is the text between the start of
  the body (past a line terminator right after the opening) and that \<open>]\<close>, and the
  cursor ends behind the closing sequence. When no such \<open>]\<close> exists, unfinishedLongString
  (unfinishedLongComment in comment mode) is raised with the line of the opening bracket
  and a range that starts at it. So \<open>[==[text]==]\<close> is \<open>text\<close>, and \<open>[==[text]=]\<close>
  raises unfinishedLongString.
\<close>

theorem C6_long_bracket:
  "(levelMatches input (index st + 1) level \<and> charAt input (index st + 1 + level) = [91] \<longrightarrow>
      (\<forall>p. closesAt input level p \<and> longBodyStart input (index st) level \<le> p
             \<and> (\<forall>q. longBodyStart input (index st) level \<le> q \<and> q < p
                      \<longrightarrow> \<not> closesAt input level q) \<longrightarrow>
           (\<exists>st'. readLongString input isComment st =
                     Inr (Some (slice input (longBodyStart input (index st) level) p), st')
                   \<and> index st' = p + level + 2))
      \<and> ((\<forall>q\<ge>longBodyStart input (index st) level. \<not> closesAt input level q) \<longrightarrow>
           readLongString input isComment st =
             Inl (tokenError
                    (if isComment then unfinishedLongComment else unfinishedLongString)
                    (line st) (lineStart st) (index st, index st + level + 1) None)))
   \<and> tokenize (str ''[==[text]==]'') defaultOptions =
       Some ([\<lparr>tok_type = StringLiteral, tok_value = VString (str ''text''), tok_line = 1,
               tok_lineStart = 0, tok_range = (0, 12), tok_lastLine = Some 1,
               tok_lastLineStart = Some 0\<rparr>],
             None, None)
   \<and> tokenize (str ''[==[text]=]'') defaultOptions =
       Some ([], Some (tokenError unfinishedLongString 1 0 (0, 3) None), None)
   \<and> tokenize (str ''--[==[text]=]'') defaultOptions =
       Some ([], Some (tokenError unfinishedLongComment 1 0 (2, 5) None), None)"
proof (intro conjI impI allI)
  fix p
  assume "levelMatches input (index st + 1) level \<and> charAt input (index st + 1 + level) = [91]"
  then obtain st3 where b: "index st3 = longBodyStart input (index st) level"
    and r: "readLongString input isComment st =
              longStringLoop input isComment level (line st) (lineStart st) (index st)
                (index st3) st3"
    using readLongString_opened [of input st level isComment] by blast
  assume "closesAt input level p \<and> longBodyStart input (index st) level \<le> p
          \<and> (\<forall>q. longBodyStart input (index st) level \<le> q \<and> q < p
                 \<longrightarrow> \<not> closesAt input level q)"
  with b have "closesAt input level p" "index st3 \<le> p"
    "\<forall>q. index st3 \<le> q \<and> q < p \<longrightarrow> \<not> closesAt input level q"
    by simp_all
  from longStringLoop_closes [OF this] r b
  show "\<exists>st'. readLongString input isComment st =
                Inr (Some (slice input (longBodyStart input (index st) level) p), st')
              \<and> index st' = p + level + 2"
    by simp
next
  assume "levelMatches input (index st + 1) level \<and> charAt input (index st + 1 + level) = [91]"
  then obtain st3 where b: "index st3 = longBodyStart input (index st) level"
    and r: "readLongString input isComment st =
              longStringLoop input isComment level (line st) (lineStart st) (index st)
                (index st3) st3"
    using readLongString_opened [of input st level isComment] by blast
  assume "\<forall>q\<ge>longBodyStart input (index st) level. \<not> closesAt input level q"
  with b have "\<forall>q\<ge>index st3. \<not> closesAt input level q" by simp
  from longStringLoop_unfinished [OF this] r
  show "readLongString input isComment st =
             Inl (tokenError
                    (if isComment then unfinishedLongComment else unfinishedLongString)
                    (line st) (lineStart st) (index st, index st + level + 1) None)"
    by simp
next
  show "tokenize (str ''[==[text]==]'') defaultOptions =
       Some ([\<lparr>tok_type = StringLiteral, tok_value = VString (str ''text''), tok_line = 1,
               tok_lineStart = 0, tok_range = (0, 12), tok_lastLine = Some 1,
               tok_lastLineStart = Some 0\<rparr>],
             None, None)"
    by (simp add: tokenizer_eval)
next
  show "tokenize (str ''[==[text]=]'') defaultOptions =
       Some ([], Some (tokenError unfinishedLongString 1 0 (0, 3) None), None)"
    by (simp add: tokenizer_eval)
next
  show "tokenize (str ''--[==[text]=]'') defaultOptions =
       Some ([], Some (tokenError unfinishedLongComment 1 0 (2, 5) None), None)"
    by (simp add: tokenizer_eval)
qed

theorem C6_long_bracket_witness:
  "(\<exists>st'. readLongString (str ''[=[a]]b]=]'') False initialCursor =
            Inr (Some (str ''a]]b''), st') \<and> index st' = 10)
   \<and> readLongString (str ''[=[a]]b]'') True initialCursor =
       Inl (tokenError unfinishedLongComment 1 0 (0, 2) None)"
proof -
  have cl: "closesAt (str ''[=[a]]b]=]'') 1 p = (p = 7)" for p
  proof (cases "p < 10")
    case False
    then show ?thesis by (simp add: closesAt_def charAt_def str_def)
  next
    case True
    then have "p = 0 \<or> p = 1 \<or> p = 2 \<or> p = 3 \<or> p = 4 \<or> p = 5 \<or> p = 6 \<or> p = 7
               \<or> p = 8 \<or> p = 9"
      by arith
    then consider "p = 0" | "p = 1" | "p = 2" | "p = 3" | "p = 4" | "p = 5" | "p = 6"
      | "p = 7" | "p = 8" | "p = 9"
      by blast
    then show ?thesis
      by cases (simp_all add: closesAt_def charAt_def str_def)
  qed
  have nc: "\<not> closesAt (str ''[=[a]]b]'') 1 p" for p
  proof (cases "p < 8")
    case False
    then show ?thesis by (simp add: closesAt_def charAt_def str_def)
  next
    case True
    then have "p = 0 \<or> p = 1 \<or> p = 2 \<or> p = 3 \<or> p = 4 \<or> p = 5 \<or> p = 6 \<or> p = 7"
      by arith
    then consider "p = 0" | "p = 1" | "p = 2" | "p = 3" | "p = 4" | "p = 5" | "p = 6"
      | "p = 7"
      by blast
    then show ?thesis
      by cases (simp_all add: closesAt_def charAt_def str_def)
  qed
  have b1: "longBodyStart (str ''[=[a]]b]=]'') 0 1 = 3"
    by (simp add: longBodyStart_def isLineTerminator_def charCodeAt_def str_def)
  have b2: "longBodyStart (str ''[=[a]]b]'') 0 1 = 3"
    by (simp add: longBodyStart_def isLineTerminator_def charCodeAt_def str_def)
  have s: "slice (str ''[=[a]]b]=]'') 3 7 = str ''a]]b''"
    by (simp add: slice_def str_def)
  let ?i1 = "str ''[=[a]]b]=]''" and ?i2 = "str ''[=[a]]b]''"
  have o1: "levelMatches ?i1 (index initialCursor + 1) 1
            \<and> charAt ?i1 (index initialCursor + 1 + 1) = [91]"
    by (simp add: initialCursor_def charAt_def str_def)
  have o2: "levelMatches ?i2 (index initialCursor + 1) 1
            \<and> charAt ?i2 (index initialCursor + 1 + 1) = [91]"
    by (simp add: initialCursor_def charAt_def str_def)
  have i0: "index initialCursor = 0" "line initialCursor = 1" "lineStart initialCursor = 0"
    by (simp_all add: initialCursor_def)
  have h1: "closesAt ?i1 1 7 \<and> longBodyStart ?i1 (index initialCursor) 1 \<le> 7
            \<and> (\<forall>q. longBodyStart ?i1 (index initialCursor) 1 \<le> q \<and> q < 7
                   \<longrightarrow> \<not> closesAt ?i1 1 q)"
    unfolding i0 b1 cl by simp
  have h2: "\<forall>q\<ge>longBodyStart ?i2 (index initialCursor) 1. \<not> closesAt ?i2 1 q"
    using nc by simp
  from C6_long_bracket [of ?i1 initialCursor 1 False, THEN conjunct1, THEN mp, OF o1,
          THEN conjunct1, THEN spec, of 7, THEN mp, OF h1]
  have "\<exists>st'. readLongString ?i1 False initialCursor = Inr (Some (str ''a]]b''), st')
              \<and> index st' = 10"
    unfolding i0 b1 s by simp
  moreover
  from C6_long_bracket [of ?i2 initialCursor 1 True, THEN conjunct1, THEN mp, OF o2,
          THEN conjunct2, THEN mp, OF h2]
  have "readLongString ?i2 True initialCursor =
          Inl (tokenError unfinishedLongComment 1 0 (0, 2) None)"
    unfolding i0 by (simp add: numeral_2_eq_2)
  ultimately show ?thesis by simp
qed

subsection \<open>The value of a hexadecimal literal\<close>






























end
